theory Spec2Isabelle
  imports Complex_Main
begin

section \<open>Numbers\<close>

text \<open>
  The tensors of \<^verbatim>\<open>util.py\<close> hold single-precision floating-point numbers (\<^verbatim>\<open>tovar\<close> calls
  \<^verbatim>\<open>.float()\<close>): a value is a finite number, one of the two infinities or NaN. A finite
  tensor entry that enters a function is given as a \<^typ>\<open>real\<close> and is meant to be
  representable (\<open>is_f32\<close>). The sign of a zero is not modelled: a zero divisor is taken as
  \<open>+0\<close>.
\<close>

datatype fl = Fin real | PInf | NInf | NaN

definition signed_inf :: "real \<Rightarrow> fl" where
  "signed_inf s = (if 0 < s then PInf else if s < 0 then NInf else NaN)"

text \<open>Rounding to the nearest integer, a tie to the even one (also \<^verbatim>\<open>T.round\<close>).\<close>

definition round_half_even :: "real \<Rightarrow> int" where
  "round_half_even v =
     (let f = \<lfloor>v\<rfloor>; d = v - of_int f
      in if d < 1 / 2 then f else if 1 / 2 < d then f + 1 else if even f then f else f + 1)"

text \<open>
  The finite single-precision numbers: \<open>m * 2 ^ e\<close> with a significand of 24 bits and an
  exponent from \<open>-149\<close> (the subnormal numbers) to \<open>104\<close>.
\<close>

definition is_f32 :: "real \<Rightarrow> bool" where
  "is_f32 x = (\<exists>m e. \<bar>m\<bar> < 2 ^ 24 \<and> - 149 \<le> e \<and> e \<le> 104 \<and> x = of_int m * 2 powi e)"

text \<open>
  Rounding a real number to single precision, to the nearest representable number and a
  tie to the even significand: \<open>bexp x\<close> is the binary exponent of \<open>x\<close>, \<open>ulp_exp x\<close> the
  exponent of the spacing of the representable numbers at \<open>x\<close>. A result of magnitude
  \<open>2 ^ 128\<close> or more overflows to an infinity.
\<close>

definition bexp :: "real \<Rightarrow> int" where
  "bexp x = \<lfloor>log 2 \<bar>x\<bar>\<rfloor>"

definition ulp_exp :: "real \<Rightarrow> int" where
  "ulp_exp x = max (- 149) (bexp x - 23)"

definition grid32 :: "real \<Rightarrow> real" where
  "grid32 x = of_int (round_half_even (x / 2 powi ulp_exp x)) * 2 powi ulp_exp x"

definition rnd32 :: "real \<Rightarrow> fl" where
  "rnd32 x =
     (if x = 0 then Fin 0
      else if 2 ^ 128 \<le> \<bar>grid32 x\<bar> then signed_inf x
      else Fin (grid32 x))"

text \<open>
  The arithmetic of the tensors: the exact result, rounded; the special values follow
  IEEE 754.
\<close>

fun fneg :: "fl \<Rightarrow> fl" where
  "fneg (Fin a) = Fin (- a)"
| "fneg PInf = NInf"
| "fneg NInf = PInf"
| "fneg NaN = NaN"

fun fadd :: "fl \<Rightarrow> fl \<Rightarrow> fl" where
  "fadd (Fin a) (Fin b) = rnd32 (a + b)"
| "fadd (Fin a) PInf = PInf"
| "fadd (Fin a) NInf = NInf"
| "fadd PInf (Fin b) = PInf"
| "fadd NInf (Fin b) = NInf"
| "fadd PInf PInf = PInf"
| "fadd NInf NInf = NInf"
| "fadd PInf NInf = NaN"
| "fadd NInf PInf = NaN"
| "fadd NaN _ = NaN"
| "fadd _ NaN = NaN"

definition fsub :: "fl \<Rightarrow> fl \<Rightarrow> fl" where
  "fsub a b = fadd a (fneg b)"

fun fmul :: "fl \<Rightarrow> fl \<Rightarrow> fl" where
  "fmul (Fin a) (Fin b) = rnd32 (a * b)"
| "fmul (Fin a) PInf = signed_inf a"
| "fmul (Fin a) NInf = signed_inf (- a)"
| "fmul PInf (Fin b) = signed_inf b"
| "fmul NInf (Fin b) = signed_inf (- b)"
| "fmul PInf PInf = PInf"
| "fmul NInf NInf = PInf"
| "fmul PInf NInf = NInf"
| "fmul NInf PInf = NInf"
| "fmul NaN _ = NaN"
| "fmul _ NaN = NaN"

fun fdiv :: "fl \<Rightarrow> fl \<Rightarrow> fl" where
  "fdiv (Fin a) (Fin b) = (if b = 0 then signed_inf a else rnd32 (a / b))"
| "fdiv (Fin a) PInf = Fin 0"
| "fdiv (Fin a) NInf = Fin 0"
| "fdiv PInf (Fin b) = (if b < 0 then NInf else PInf)"
| "fdiv NInf (Fin b) = (if b < 0 then PInf else NInf)"
| "fdiv PInf PInf = NaN"
| "fdiv NInf NInf = NaN"
| "fdiv PInf NInf = NaN"
| "fdiv NInf PInf = NaN"
| "fdiv NaN _ = NaN"
| "fdiv _ NaN = NaN"

text \<open>The comparisons \<open>\<le>\<close> and \<open><\<close>: false when an argument is NaN.\<close>

fun fle :: "fl \<Rightarrow> fl \<Rightarrow> bool" where
  "fle (Fin a) (Fin b) = (a \<le> b)"
| "fle NaN _ = False"
| "fle _ NaN = False"
| "fle NInf _ = True"
| "fle _ PInf = True"
| "fle PInf _ = False"
| "fle _ NInf = False"

fun flt :: "fl \<Rightarrow> fl \<Rightarrow> bool" where
  "flt (Fin a) (Fin b) = (a < b)"
| "flt NaN _ = False"
| "flt _ NaN = False"
| "flt PInf _ = False"
| "flt _ NInf = False"
| "flt NInf _ = True"
| "flt _ PInf = True"

text \<open>
  \<^verbatim>\<open>T.min\<close> and \<^verbatim>\<open>T.max\<close> of two tensors at one index, and \<^verbatim>\<open>.clamp(min=m)\<close>; a NaN is
  passed on.
\<close>

definition fmin :: "fl \<Rightarrow> fl \<Rightarrow> fl" where
  "fmin a b = (if a = NaN \<or> b = NaN then NaN else if fle a b then a else b)"

definition fmax :: "fl \<Rightarrow> fl \<Rightarrow> fl" where
  "fmax a b = (if a = NaN \<or> b = NaN then NaN else if fle a b then b else a)"

definition clamp_min :: "real \<Rightarrow> fl \<Rightarrow> fl" where
  "clamp_min m v = (if v = NaN then NaN else if flt v (Fin m) then Fin m else v)"

text \<open>
  \<^verbatim>\<open>T.log\<close> and the square root (\<^verbatim>\<open>** 0.5\<close>, the root inside \<^verbatim>\<open>.norm()\<close>), taken as
  correctly rounded.
\<close>

fun flog :: "fl \<Rightarrow> fl" where
  "flog (Fin a) = (if 0 < a then rnd32 (ln a) else if a = 0 then NInf else NaN)"
| "flog PInf = PInf"
| "flog NInf = NaN"
| "flog NaN = NaN"

fun fsqrt :: "fl \<Rightarrow> fl" where
  "fsqrt (Fin a) = (if a < 0 then NaN else rnd32 (sqrt a))"
| "fsqrt PInf = PInf"
| "fsqrt NInf = NaN"
| "fsqrt NaN = NaN"

text \<open>
  \<^verbatim>\<open>.sum()\<close> of a vector: the entries are added one after the other, from the left; the
  empty sum is \<open>0\<close>.
\<close>

definition fsum :: "fl list \<Rightarrow> fl" where
  "fsum xs = foldl fadd (Fin 0) xs"

fun is_fin :: "fl \<Rightarrow> bool" where
  "is_fin (Fin a) = True"
| "is_fin _ = False"

text \<open>A value of a tensor: its finite values are representable.\<close>

fun fl_ok :: "fl \<Rightarrow> bool" where
  "fl_ok (Fin a) = is_f32 a"
| "fl_ok _ = True"

text \<open>A finite value of magnitude at most \<open>M\<close>.\<close>

fun fbound :: "real \<Rightarrow> fl \<Rightarrow> bool" where
  "fbound M (Fin a) = (\<bar>a\<bar> \<le> M)"
| "fbound M _ = False"

section \<open>Broadcasting\<close>

text \<open>
  Two tensors that are combined elementwise are broadcast against each other: along an
  axis their sizes are equal, or one of them is \<open>1\<close> and its entry is repeated; any other
  pair of sizes is a \<^verbatim>\<open>RuntimeError\<close>. \<open>bcast\<close> combines two tensors of one axis, \<open>bcast2\<close>
  two tensors of two axes (lists of rows of one length).
\<close>

datatype error = AssertionError | RuntimeError

definition bcast :: "('a \<Rightarrow> 'b \<Rightarrow> 'c) \<Rightarrow> 'a list \<Rightarrow> 'b list \<Rightarrow> error + 'c list" where
  "bcast f a b =
     (if length a = length b then Inr (map2 f a b)
      else if length a = 1 then Inr (map (f (hd a)) b)
      else if length b = 1 then Inr (map (\<lambda>x. f x (hd b)) a)
      else Inl RuntimeError)"

fun collect :: "(error + 'a) list \<Rightarrow> error + 'a list" where
  "collect [] = Inr []"
| "collect (Inl e # rs) = Inl e"
| "collect (Inr v # rs) = (case collect rs of Inl e \<Rightarrow> Inl e | Inr vs \<Rightarrow> Inr (v # vs))"

definition bcast2 ::
  "('a \<Rightarrow> 'b \<Rightarrow> 'c) \<Rightarrow> 'a list list \<Rightarrow> 'b list list \<Rightarrow> error + 'c list list" where
  "bcast2 f a b =
     (case bcast (bcast f) a b of
        Inl e \<Rightarrow> Inl e
      | Inr rows \<Rightarrow> collect rows)"

text \<open>The size of a broadcast result and the entry of an argument that goes into index \<open>k\<close>.\<close>

definition blen :: "'a list \<Rightarrow> 'b list \<Rightarrow> nat" where
  "blen a b = (if length a = length b then length a else if length a = 1 then length b else length a)"

definition bpick :: "'a list \<Rightarrow> nat \<Rightarrow> 'a" where
  "bpick a k = (if length a = 1 then hd a else a ! k)"

text \<open>A tensor of shape \<open>(B, N)\<close>.\<close>

definition has_shape :: "'a list list \<Rightarrow> nat \<Rightarrow> nat \<Rightarrow> bool" where
  "has_shape t B N = (length t = B \<and> list_all (\<lambda>row. length row = N) t)"

text \<open>A tensor of two axes that is broadcast to the shape \<open>(B, N)\<close>, and its entries then.\<close>

definition fits_shape :: "'a list list \<Rightarrow> nat \<Rightarrow> nat \<Rightarrow> bool" where
  "fits_shape t B N =
     ((length t = B \<or> length t = 1)
      \<and> (list_all (\<lambda>row. length row = N) t \<or> list_all (\<lambda>row. length row = 1) t))"

definition expand :: "'a list list \<Rightarrow> nat \<Rightarrow> nat \<Rightarrow> 'a list list" where
  "expand t B N =
     map (\<lambda>row. if length row = N then row else replicate N (hd row))
       (if length t = B then t else replicate B (hd t))"

section \<open>Bounding boxes\<close>

text \<open>
  A box is the last axis of a tensor, of size four: \<open>(x, y, w, h)\<close>. A tensor of boxes has
  the shape \<open>(n, 4)\<close> and is a list of boxes; the elementwise operations of the source
  (\<^verbatim>\<open>T.max\<close>, \<^verbatim>\<open>T.min\<close>, \<open>+\<close>, \<open>-\<close>, \<open>*\<close>, \<open>/\<close>, \<^verbatim>\<open>clamp\<close>) act on the entries at one index.
\<close>

type_synonym bbox = "real \<times> real \<times> real \<times> real"

text \<open>The four entries of the last axis: \<^verbatim>\<open>b[..., 0]\<close> to \<^verbatim>\<open>b[..., 3]\<close>.\<close>

definition box_x :: "bbox \<Rightarrow> real" where "box_x b = fst b"
definition box_y :: "bbox \<Rightarrow> real" where "box_y b = fst (snd b)"
definition box_w :: "bbox \<Rightarrow> real" where "box_w b = fst (snd (snd b))"
definition box_h :: "bbox \<Rightarrow> real" where "box_h b = snd (snd (snd b))"

text \<open>
  \<^verbatim>\<open>check_bbox_validness\<close>: two \<^verbatim>\<open>assert np.all(... >= 0)\<close>, first on the widths, then on
  the heights of the whole tensor.
\<close>

definition check_bbox_validness :: "bbox list \<Rightarrow> error + unit" where
  "check_bbox_validness b =
     (if \<not> list_all (\<lambda>e. box_w e \<ge> 0) b then Inl AssertionError
      else if \<not> list_all (\<lambda>e. box_h e \<ge> 0) b then Inl AssertionError
      else Inr ())"

text \<open>
  \<^verbatim>\<open>clamp_bbox\<close>: \<^verbatim>\<open>bw - bw.clamp(max=0).detach()\<close>. \<^verbatim>\<open>clamp(max=0)\<close> is \<open>min bw 0\<close>, and
  \<^verbatim>\<open>detach\<close> returns its argument's value (it only cuts the gradient).
\<close>

definition clamp_bbox :: "bbox list \<Rightarrow> bbox list" where
  "clamp_bbox b =
     map (\<lambda>(b_x, b_y, b_w, b_h). (b_x, b_y, b_w - min b_w 0, b_h - min b_h 0)) b"

text \<open>
  The body of \<^verbatim>\<open>intersection\<close> after the two checks, at one index of the tensors.
  \<^verbatim>\<open>T.max\<close> of two entries is one of them; the sums, the differences and the product are
  rounded.
\<close>

definition intersection_at :: "bbox \<Rightarrow> bbox \<Rightarrow> fl" where
  "intersection_at a b =
     (let x1 = Fin (max (box_x a) (box_x b));
          y1 = Fin (max (box_y a) (box_y b));
          x2 = fmin (fadd (Fin (box_x a)) (Fin (box_w a))) (fadd (Fin (box_x b)) (Fin (box_w b)));
          y2 = fmin (fadd (Fin (box_y a)) (Fin (box_h a))) (fadd (Fin (box_y b)) (Fin (box_h b)));
          w = clamp_min 0 (fsub x2 x1);
          h = clamp_min 0 (fsub y2 y1)
      in fmul w h)"

definition intersection :: "bbox list \<Rightarrow> bbox list \<Rightarrow> error + fl list" where
  "intersection a b =
     (case check_bbox_validness a of
        Inl e \<Rightarrow> Inl e
      | Inr _ \<Rightarrow>
          (case check_bbox_validness b of
             Inl e \<Rightarrow> Inl e
           | Inr _ \<Rightarrow> bcast intersection_at a b))"

text \<open>\<^verbatim>\<open>a[..., 2] * a[..., 3]\<close>\<close>

definition box_area :: "bbox \<Rightarrow> fl" where
  "box_area a = fmul (Fin (box_w a)) (Fin (box_h a))"

text \<open>\<^verbatim>\<open>i_area / (a_area + b_area - i_area)\<close>\<close>

definition iou :: "bbox list \<Rightarrow> bbox list \<Rightarrow> error + fl list" where
  "iou a b =
     (case intersection a b of
        Inl e \<Rightarrow> Inl e
      | Inr i_area \<Rightarrow>
          let a_area = map box_area a;
              b_area = map box_area b
          in case bcast fadd a_area b_area of
               Inl e \<Rightarrow> Inl e
             | Inr s \<Rightarrow>
                 (case bcast fsub s i_area of
                    Inl e \<Rightarrow> Inl e
                  | Inr d \<Rightarrow> bcast fdiv i_area d))"

text \<open>
  A box with representable entries, a width and a height that are not negative, and
  corners \<open>x + w\<close>, \<open>y + h\<close> that are representable, so that the two sums are not rounded.
\<close>

definition box_exact :: "bbox \<Rightarrow> bool" where
  "box_exact e =
     (is_f32 (box_x e) \<and> is_f32 (box_y e) \<and> is_f32 (box_w e) \<and> is_f32 (box_h e)
      \<and> 0 \<le> box_w e \<and> 0 \<le> box_h e
      \<and> is_f32 (box_x e + box_w e) \<and> is_f32 (box_y e + box_h e))"

section \<open>Masked negative log-likelihood\<close>

text \<open>
  The default of the parameter \<^verbatim>\<open>eps\<close> of \<^verbatim>\<open>nll\<close>, the Python number \<^verbatim>\<open>1e-8\<close>. In an
  operation with a tensor it is rounded to single precision, to \<open>eps32\<close>.
\<close>

definition default_eps :: real where
  "default_eps = 1 / 10 ^ 8"

definition eps32 :: real where
  "eps32 = 11258999 / 2 ^ 50"

text \<open>
  \<^verbatim>\<open>nll\<close> at one entry of \<open>x\<close>. \<^verbatim>\<open>((x - eps) < 0).float()\<close> is \<open>1\<close> where the comparison
  holds and \<open>0\<close> elsewhere; \<open>nll_dx\<close> is the \<^verbatim>\<open>dx\<close> of the source and \<open>nll_arg\<close> the argument
  \<^verbatim>\<open>x + dx\<close> of \<^verbatim>\<open>T.log\<close>.
\<close>

definition nll_dx :: "real \<Rightarrow> real \<Rightarrow> fl" where
  "nll_dx x eps =
     fmul (Fin (if flt (fsub (Fin x) (rnd32 eps)) (Fin 0) then 1 else 0)) (rnd32 eps)"

definition nll_arg :: "real \<Rightarrow> real \<Rightarrow> fl" where
  "nll_arg x eps = (let dx = nll_dx x eps in fadd (Fin x) dx)"

definition nll :: "real \<Rightarrow> real \<Rightarrow> fl" where
  "nll x eps = fneg (flog (nll_arg x eps))"

text \<open>\<^verbatim>\<open>(v != 0).float()\<close>, of an entry of \<^verbatim>\<open>presence\<close> and of a computed value.\<close>

definition ne0 :: "real \<Rightarrow> real" where
  "ne0 v = (if v \<noteq> 0 then 1 else 0)"

definition fne0 :: "fl \<Rightarrow> real" where
  "fne0 v = (if v \<noteq> Fin 0 then 1 else 0)"

text \<open>
  \<^verbatim>\<open>masked_nll(x, presence, weight=None)\<close>. \<open>x\<close>, \<open>presence\<close> and \<open>weight\<close> are tensors
  of two axes, \<open>(batch, nobjs)\<close>, lists of rows. The function is given statement by
  statement. \<open>weighted_nll\<close> is \<^verbatim>\<open>nll_x\<close> after \<^verbatim>\<open>nll_x = nll(x)\<close> and the product with
  \<^verbatim>\<open>weight\<close>, when there is one.
\<close>

definition weighted_nll :: "real list list \<Rightarrow> real list list option \<Rightarrow> error + fl list list" where
  "weighted_nll x weight =
     (let nll_x = map (map (\<lambda>v. nll v default_eps)) x
      in case weight of
           None \<Rightarrow> Inr nll_x
         | Some wt \<Rightarrow> bcast2 (\<lambda>l v. fmul l (Fin v)) nll_x wt)"

text \<open>\<^verbatim>\<open>nll_x = nll_x * (presence != 0).float()\<close>\<close>

definition masked_nll_entries ::
  "real list list \<Rightarrow> real list list \<Rightarrow> real list list option \<Rightarrow> error + fl list list" where
  "masked_nll_entries x presence weight =
     (case weighted_nll x weight of
        Inl e \<Rightarrow> Inl e
      | Inr nll_x \<Rightarrow> bcast2 (\<lambda>l v. fmul l (Fin (ne0 v))) nll_x presence)"

text \<open>\<^verbatim>\<open>p = (presence != 0).float().sum(1)\<close>\<close>

definition present_count :: "real list list \<Rightarrow> fl list" where
  "present_count presence = map (\<lambda>row. fsum (map (\<lambda>v. Fin (ne0 v)) row)) presence"

text \<open>\<^verbatim>\<open>_nll = nll_x.sum(1) / p.clamp(min=1) * (p != 0).float()\<close>\<close>

definition masked_nll_rows ::
  "real list list \<Rightarrow> real list list \<Rightarrow> real list list option \<Rightarrow> error + fl list" where
  "masked_nll_rows x presence weight =
     (case masked_nll_entries x presence weight of
        Inl e \<Rightarrow> Inl e
      | Inr nll_x \<Rightarrow>
          let p = present_count presence
          in case bcast fdiv (map fsum nll_x) (map (clamp_min 1) p) of
               Inl e \<Rightarrow> Inl e
             | Inr q \<Rightarrow> bcast (\<lambda>v c. fmul v (Fin (fne0 c))) q p)"

text \<open>\<^verbatim>\<open>return _nll.sum() / (p != 0).float().sum()\<close>\<close>

definition masked_nll ::
  "real list list \<Rightarrow> real list list \<Rightarrow> real list list option \<Rightarrow> error + fl" where
  "masked_nll x presence weight =
     (case masked_nll_rows x presence weight of
        Inl e \<Rightarrow> Inl e
      | Inr nll_rows \<Rightarrow>
          let p = present_count presence
          in Inr (fdiv (fsum nll_rows) (fsum (map (\<lambda>c. Fin (fne0 c)) p))))"

subsection \<open>The masked mean as the specification words it\<close>

text \<open>
  The specification describes \<open>maskedMean\<close> step by step: the negative logarithm of the
  input, optionally times the weight (broadcast to the shape of the input); entries whose
  presence is \<open>0\<close> are zeroed; the sum over the object axis is divided by the number of
  present objects of the row (at least \<open>1\<close>); rows with no present object are zeroed; the
  result is the average over the rows that have a present object. \<open>maskedMean_spec\<close>
  follows these words, in the arithmetic of the tensors, to be compared with \<open>masked_nll\<close>.
\<close>

definition spec_row_count :: "real list \<Rightarrow> nat" where
  "spec_row_count prow = length (filter (\<lambda>v. v \<noteq> 0) prow)"

definition ncols :: "'a list list \<Rightarrow> nat" where
  "ncols t = (case t of [] \<Rightarrow> 0 | row # _ \<Rightarrow> length row)"

definition spec_weighted :: "real list list \<Rightarrow> real list list option \<Rightarrow> fl list list" where
  "spec_weighted x weight =
     (let loss = map (map (\<lambda>v. nll v default_eps)) x
      in case weight of
           None \<Rightarrow> loss
         | Some wt \<Rightarrow>
             map2 (map2 (\<lambda>l v. fmul l (Fin v))) loss (expand wt (length x) (ncols x)))"

definition spec_entries ::
  "real list list \<Rightarrow> real list list \<Rightarrow> real list list option \<Rightarrow> fl list list" where
  "spec_entries x presence weight =
     map2 (map2 (\<lambda>l v. if v = 0 then Fin 0 else l)) (spec_weighted x weight) presence"

definition spec_rows ::
  "real list list \<Rightarrow> real list list \<Rightarrow> real list list option \<Rightarrow> fl list" where
  "spec_rows x presence weight =
     map2 (\<lambda>row prow.
             if spec_row_count prow = 0 then Fin 0
             else fdiv (fsum row) (rnd32 (real (max (spec_row_count prow) 1))))
       (spec_entries x presence weight) presence"

definition maskedMean_spec ::
  "real list list \<Rightarrow> real list list \<Rightarrow> real list list option \<Rightarrow> fl" where
  "maskedMean_spec x presence weight =
     (let kept = filter (\<lambda>(r, prow). spec_row_count prow \<noteq> 0)
                   (zip (spec_rows x presence weight) presence)
      in fdiv (fsum (map fst kept)) (rnd32 (real (length kept))))"

text \<open>
  The weight, when given, is a tensor of representable numbers that is broadcast to the
  shape \<open>(B, N)\<close>.
\<close>

definition weight_fits :: "real list list option \<Rightarrow> nat \<Rightarrow> nat \<Rightarrow> bool" where
  "weight_fits weight B N =
     (case weight of
        None \<Rightarrow> True
      | Some wt \<Rightarrow> fits_shape wt B N \<and> list_all (list_all is_f32) wt)"

text \<open>
  The value of \<^verbatim>\<open>nll_x\<close> at position \<open>(i, j)\<close> before the product with the mask: the negative
  logarithm of the entry of \<open>x\<close>, times the entry of the broadcast weight.
\<close>

definition weighted_at :: "real list list \<Rightarrow> real list list option \<Rightarrow> nat \<Rightarrow> nat \<Rightarrow> fl" where
  "weighted_at x weight i j =
     (case weight of
        None \<Rightarrow> nll (x ! i ! j) default_eps
      | Some wt \<Rightarrow>
          fmul (nll (x ! i ! j) default_eps)
            (Fin (expand wt (length x) (ncols x) ! i ! j)))"

text \<open>At every padding slot (presence zero) that value is a finite number.\<close>

definition pad_finite ::
  "real list list \<Rightarrow> real list list \<Rightarrow> real list list option \<Rightarrow> bool" where
  "pad_finite p x weight =
     (\<forall>i < length p. \<forall>j < length (p ! i). p ! i ! j = 0 \<longrightarrow> is_fin (weighted_at x weight i j))"

text \<open>
  Two invocations agree at every position where \<open>presence\<close> is not zero: in the entry of
  \<open>x\<close> and in the entry of the broadcast weight.
\<close>

definition agree_present ::
  "real list list \<Rightarrow> real list list \<Rightarrow> real list list \<Rightarrow> bool" where
  "agree_present p a b =
     (\<forall>i < length p. \<forall>j < length (p ! i). p ! i ! j \<noteq> 0 \<longrightarrow> a ! i ! j = b ! i ! j)"

definition weights_agree ::
  "real list list \<Rightarrow> nat \<Rightarrow> nat \<Rightarrow> real list list option \<Rightarrow> real list list option \<Rightarrow> bool" where
  "weights_agree p B N weight weight' =
     (case weight of
        None \<Rightarrow> weight' = None
      | Some a \<Rightarrow>
          (case weight' of
             None \<Rightarrow> False
           | Some b \<Rightarrow> agree_present p (expand a B N) (expand b B N)))"

section \<open>Gradient clipping\<close>

text \<open>
  \<^verbatim>\<open>named_params\<close> is what the two \<^verbatim>\<open>for\<close> loops of \<^verbatim>\<open>clip_grads\<close> iterate: a collection that
  can be iterated again (a list), or an iterator that is exhausted by the first loop (the
  generator that \<^verbatim>\<open>Module.named_parameters()\<close> returns), so that the second loop finds
  nothing. It yields pairs of a name and a parameter; of a parameter only \<^verbatim>\<open>p.grad\<close> is
  read: \<^verbatim>\<open>None\<close> or a tensor, whose entries (finite on entry) are flattened into a list.
  \<^verbatim>\<open>clip_grads\<close> updates the gradients in place; the model returns them, with the names, as
  they are after the call.
\<close>

type_synonym named_param = "string \<times> real list option"

datatype named_params = Reiterable "named_param list" | OneShot "named_param list"

definition first_pass :: "named_params \<Rightarrow> named_param list" where
  "first_pass np = (case np of Reiterable ps \<Rightarrow> ps | OneShot ps \<Rightarrow> ps)"

definition second_pass :: "named_params \<Rightarrow> named_param list" where
  "second_pass np = (case np of Reiterable ps \<Rightarrow> ps | OneShot ps \<Rightarrow> [])"

text \<open>\<^verbatim>\<open>p.grad.data.norm()\<close>: the 2-norm of a tensor.\<close>

definition tensor_norm :: "real list \<Rightarrow> fl" where
  "tensor_norm g = fsqrt (fsum (map (\<lambda>v. fmul (Fin v) (Fin v)) g))"

text \<open>
  The first loop of \<^verbatim>\<open>clip_grads\<close> and \<^verbatim>\<open>grad_norm = grad_norm ** 0.5\<close>; \<^verbatim>\<open>** 2\<close> is the
  product of the norm with itself.
\<close>

definition grad_norm :: "named_param list \<Rightarrow> fl" where
  "grad_norm ps =
     (let grad_norm =
        foldl (\<lambda>grad_norm (n, grad).
                 case grad of
                   None \<Rightarrow> grad_norm
                 | Some d \<Rightarrow> fadd grad_norm (fmul (tensor_norm d) (tensor_norm d)))
          (Fin 0) ps
      in fsqrt grad_norm)"

text \<open>
  What a loop over the parameters leaves: the gradients as they are on entry, and every
  gradient entry divided by \<open>c\<close> (\<^verbatim>\<open>p.grad.data /= c\<close>).
\<close>

definition unchanged_grads :: "named_param list \<Rightarrow> (string \<times> fl list option) list" where
  "unchanged_grads ps = map (\<lambda>(n, grad). (n, map_option (map Fin) grad)) ps"

definition divided_grads :: "fl \<Rightarrow> named_param list \<Rightarrow> (string \<times> fl list option) list" where
  "divided_grads c ps =
     map (\<lambda>(n, grad). (n, map_option (map (\<lambda>v. fdiv (Fin v) c)) grad)) ps"

text \<open>
  The comparison and the second loop: \<^verbatim>\<open>p.grad.data /= grad_norm / max_norm\<close>. The Python
  number \<^verbatim>\<open>max_norm\<close> is rounded to single precision where it meets the norm. The second
  loop divides the gradients of the parameters it reaches; a parameter that it does not
  reach keeps its gradient.
\<close>

definition clip_grads :: "named_params \<Rightarrow> real \<Rightarrow> (string \<times> fl list option) list" where
  "clip_grads np max_norm =
     (let grad_norm = grad_norm (first_pass np)
      in if flt (rnd32 max_norm) grad_norm
         then divided_grads (fdiv grad_norm (rnd32 max_norm)) (second_pass np)
              @ unchanged_grads (drop (length (second_pass np)) (first_pass np))
         else unchanged_grads (first_pass np))"

text \<open>The gradients that are not \<^verbatim>\<open>None\<close>, and every gradient entry multiplied by \<open>c\<close>.\<close>

definition defined_grads :: "named_param list \<Rightarrow> real list list" where
  "defined_grads ps = List.map_filter snd ps"

definition scaled_grads :: "fl \<Rightarrow> named_param list \<Rightarrow> (string \<times> fl list option) list" where
  "scaled_grads c ps =
     map (\<lambda>(n, grad). (n, map_option (map (\<lambda>v. fmul (Fin v) c)) grad)) ps"

section \<open>Box to mask\<close>

text \<open>\<^verbatim>\<open>int()\<close> of a float truncates towards zero.\<close>

definition trunc_int :: "real \<Rightarrow> int" where
  "trunc_int v = (if 0 \<le> v then \<lfloor>v\<rfloor> else \<lceil>v\<rceil>)"

text \<open>
  \<^verbatim>\<open>F.pad\<close> along one axis, with \<open>z\<close> the padding entry: a non-negative amount adds
  entries, a negative amount removes entries.
\<close>

definition pad_axis :: "'a \<Rightarrow> int \<Rightarrow> int \<Rightarrow> 'a list \<Rightarrow> 'a list" where
  "pad_axis z before after xs =
     (let ys = (if 0 \<le> before then replicate (nat before) z @ xs
                else drop (nat (- before)) xs)
      in if 0 \<le> after then ys @ replicate (nat after) z
         else take (length ys - nat (- after)) ys)"

text \<open>
  \<^verbatim>\<open>F.pad(core, padspace)\<close> with \<^verbatim>\<open>padspace = (left, right, top, bottom)\<close>: the first two
  amounts pad the last axis (the columns), the last two the rows.
\<close>

definition pad2d :: "int \<times> int \<times> int \<times> int \<Rightarrow> real list list \<Rightarrow> real list list" where
  "pad2d padspace core =
     (case padspace of (p_left, p_right, p_top, p_bottom) \<Rightarrow>
        let rows = map (pad_axis 0 p_left p_right) core;
            width = (case rows of [] \<Rightarrow> 0 | row # _ \<Rightarrow> length row)
        in pad_axis (replicate width 0) p_top p_bottom rows)"

text \<open>
  \<^verbatim>\<open>_bbox_to_mask(yy, region_size, output_size)\<close> up to the slicing:
  \<open>region_mask\<close> is the array \<^verbatim>\<open>mask\<close> handed to \<^verbatim>\<open>scipy.misc.imresize\<close>.
  \<^verbatim>\<open>region_size\<close> is \<open>(rows, cols)\<close>; \<^verbatim>\<open>core_shape\<close> is \<open>(width, height)\<close>.
\<close>

definition region_mask :: "bbox \<Rightarrow> real \<times> real \<Rightarrow> real list list" where
  "region_mask yy region_size =
     (let neg_part = (max (- box_x yy) 0, max (- box_y yy) 0);
          core_shape = (max (round_half_even (box_w yy - fst neg_part)) 1,
                        max (round_half_even (box_h yy - snd neg_part)) 1);
          core = replicate (nat (snd core_shape)) (replicate (nat (fst core_shape)) 1);
          y1 = max (box_y yy) 0;
          x1 = max (box_x yy) 0;
          y2 = min (box_y yy + box_h yy) (fst region_size);
          x2 = min (box_x yy + box_w yy) (snd region_size);
          padspace = (x1, snd region_size - x2, y1, fst region_size - y2);
          padspace = (case padspace of (l, r, t, b) \<Rightarrow>
                        (trunc_int l, trunc_int r, trunc_int t, trunc_int b));
          padded = pad2d padspace core
      in map (take (nat (max (trunc_int (snd region_size)) 1)))
           (take (nat (max (trunc_int (fst region_size)) 1)) padded))"

text \<open>
  \<^verbatim>\<open>_bbox_to_mask\<close> (\<open>bbox_to_mask1\<close> here: a name cannot start with an underscore), with
  its last two statements. \<^verbatim>\<open>scipy.misc.imresize\<close> is a library function and a parameter
  here: it takes the mask and the output size \<open>(rows, cols)\<close> and returns an array of bytes,
  which the source divides by \<open>255\<close>.
\<close>

definition bbox_to_mask1 ::
  "(real list list \<Rightarrow> nat \<times> nat \<Rightarrow> nat list list) \<Rightarrow> bbox \<Rightarrow> real \<times> real \<Rightarrow> nat \<times> nat
     \<Rightarrow> real list list" where
  "bbox_to_mask1 imresize yy region_size output_size =
     (let mask = region_mask yy region_size
      in map (map (\<lambda>v. real v / 255)) (imresize mask output_size))"

text \<open>
  \<^verbatim>\<open>bbox_to_mask\<close>: the loop over \<^verbatim>\<open>zip(bbox_flat, region_rows_flat, region_cols_flat)\<close>;
  the stacked masks are the list of the rasters.
\<close>

definition bbox_to_mask ::
  "(real list list \<Rightarrow> nat \<times> nat \<Rightarrow> nat list list) \<Rightarrow> bbox list \<Rightarrow> real list \<Rightarrow> real list
     \<Rightarrow> nat \<times> nat \<Rightarrow> real list list list" where
  "bbox_to_mask imresize bbox region_rows region_cols output_size =
     map (\<lambda>(b, rows, cols). bbox_to_mask1 imresize b (rows, cols) output_size)
       (zip bbox (zip region_rows region_cols))"

text \<open>
  Modelled from the spec: the image resize primitive, which is not part of the repository
  (the source calls \<^verbatim>\<open>scipy.misc.imresize\<close>). The specification names it a nearest or
  area-based resampling of a 2D array to the output size; the result is in bytes, \<open>255\<close>
  for the mask value \<open>1\<close>. Resampling to the size the mask already has returns the mask.
\<close>

definition resize_nearest :: "real list list \<Rightarrow> nat \<times> nat \<Rightarrow> nat list list" where
  "resize_nearest m output_size =
     (case output_size of (oh, ow) \<Rightarrow>
        map (\<lambda>i. map (\<lambda>j.
               if m = [] then 0
               else let row = m ! (i * length m div oh)
                    in if row = [] then 0
                       else nat \<lfloor>255 * (row ! (j * length row div ow))\<rfloor>)
             [0..<ow])
          [0..<oh])"

text \<open>Every entry of a raster is zero.\<close>

definition all_zero :: "real list list \<Rightarrow> bool" where
  "all_zero m = (\<forall>row \<in> set m. \<forall>v \<in> set row. v = 0)"

section \<open>Rounding: properties\<close>

lemma rhe_of_int: "round_half_even (of_int n) = n"
  by (simp add: round_half_even_def)

lemma rhe_cases:
  "round_half_even v = \<lfloor>v\<rfloor> \<or> round_half_even v = \<lfloor>v\<rfloor> + 1"
  by (simp add: round_half_even_def Let_def)

lemma rhe_mono:
  assumes "v \<le> w"
  shows "round_half_even v \<le> round_half_even w"
proof (cases "\<lfloor>v\<rfloor> = \<lfloor>w\<rfloor>")
  case True
  with assms have "v - of_int \<lfloor>v\<rfloor> \<le> w - of_int \<lfloor>w\<rfloor>" by simp
  with True show ?thesis by (auto simp: round_half_even_def Let_def)
next
  case False
  with assms have "\<lfloor>v\<rfloor> < \<lfloor>w\<rfloor>" using floor_mono [OF assms] by simp
  moreover have "round_half_even v \<le> \<lfloor>v\<rfloor> + 1" using rhe_cases [of v] by auto
  moreover have "\<lfloor>w\<rfloor> \<le> round_half_even w" using rhe_cases [of w] by auto
  ultimately show ?thesis by simp
qed

lemma rhe_minus: "round_half_even (- v) = - round_half_even v"
proof (cases "v = of_int \<lfloor>v\<rfloor>")
  case True
  then obtain n where "v = of_int n" ..
  then have "- v = of_int (- n)" by simp
  then show ?thesis unfolding \<open>v = of_int n\<close> by (simp only: rhe_of_int)
next
  case False
  define f where "f = \<lfloor>v\<rfloor>"
  define d where "d = v - of_int f"
  have fl: "\<lfloor>- v\<rfloor> = - f - 1"
    using False by (simp add: floor_minus ceiling_altdef f_def)
  have d: "0 < d" "d < 1" using False by (auto simp: d_def f_def less_le) linarith+
  have d': "- v - of_int (- f - 1) = 1 - d" by (simp add: d_def)
  have ev: "even (- f - 1) \<longleftrightarrow> odd f" by simp
  have L: "round_half_even (- v) =
     (if 1 - d < 1 / 2 then - f - 1 else if 1 / 2 < 1 - d then - f
      else if odd f then - f - 1 else - f)"
    unfolding round_half_even_def Let_def fl d' ev by simp
  have R: "round_half_even v =
     (if d < 1 / 2 then f else if 1 / 2 < d then f + 1 else if even f then f else f + 1)"
    unfolding round_half_even_def Let_def f_def [symmetric] d_def [symmetric] ..
  consider "d < 1 / 2" | "1 / 2 < d" | "d = 1 / 2" by linarith
  then show ?thesis
  proof cases
    case 1
    then show ?thesis unfolding L R by simp
  next
    case 2
    then show ?thesis unfolding L R by simp
  next
    case 3
    then show ?thesis unfolding L R by simp
  qed
qed


lemma rhe_le_int: "v \<le> of_int n \<Longrightarrow> round_half_even v \<le> n"
  using rhe_mono [of v "of_int n"] by (simp add: rhe_of_int)

lemma rhe_ge_int: "of_int n \<le> v \<Longrightarrow> n \<le> round_half_even v"
  using rhe_mono [of "of_int n" v] by (simp add: rhe_of_int)

lemma powr2_int: "2 powr real_of_int k = (2::real) powi k"
  by (rule powr_real_of_int') simp_all

lemma bexp_bracket:
  assumes "x \<noteq> 0"
  shows "2 powi bexp x \<le> \<bar>x\<bar>" and "\<bar>x\<bar> < 2 powi (bexp x + 1)"
proof -
  have pos: "0 < \<bar>x\<bar>" using assms by simp
  have "2 powr real_of_int (bexp x) \<le> \<bar>x\<bar> \<and> \<bar>x\<bar> < 2 powr (real_of_int (bexp x) + 1)"
    using floor_log_eq_powr_iff [OF pos, of 2 "bexp x"] by (simp add: bexp_def)
  moreover have "real_of_int (bexp x) + 1 = real_of_int (bexp x + 1)" by simp
  ultimately show "2 powi bexp x \<le> \<bar>x\<bar>" and "\<bar>x\<bar> < 2 powi (bexp x + 1)"
    by (simp_all only: powr2_int)
qed

lemma bexp_eqI:
  assumes "2 powi k \<le> \<bar>x\<bar>" and "\<bar>x\<bar> < 2 powi (k + 1)"
  shows "bexp x = k"
proof -
  have pos: "0 < \<bar>x\<bar>"
    using assms(1) zero_less_power_int [of "2::real" k] by linarith
  have "real_of_int k + 1 = real_of_int (k + 1)" by simp
  then have "2 powr real_of_int k \<le> \<bar>x\<bar> \<and> \<bar>x\<bar> < 2 powr (real_of_int k + 1)"
    using assms by (simp only: powr2_int)
  then show ?thesis
    using floor_log_eq_powr_iff [OF pos, of 2 k] by (simp add: bexp_def)
qed

lemma pow2_less_imp: "(2::real) powi a < 2 powi b \<Longrightarrow> a < b"
  by (rule ccontr) (use power_int_increasing [of b a "2::real"] in auto)

lemma pow2_le_imp: "(2::real) powi a \<le> 2 powi b \<Longrightarrow> a \<le> b"
  by (rule ccontr) (use power_int_strict_increasing [of b a "2::real"] in auto)

lemma pow2_mono: "a \<le> b \<Longrightarrow> (2::real) powi a \<le> 2 powi b"
  by (rule power_int_increasing) simp_all

lemma pow2_strict_mono: "a < b \<Longrightarrow> (2::real) powi a < 2 powi b"
  by (rule power_int_strict_increasing) simp_all

lemma pow2_pos: "0 < (2::real) powi a"
  by simp

lemma pow2_add: "(2::real) powi (a + b) = 2 powi a * 2 powi b"
  by (rule power_int_add) simp

lemma pow2_diff: "(2::real) powi (a - b) = 2 powi a / 2 powi b"
  by (rule power_int_diff) simp

lemma bexp_less: "x \<noteq> 0 \<Longrightarrow> \<bar>x\<bar> < 2 powi j \<Longrightarrow> bexp x < j"
  using bexp_bracket(1) [of x] pow2_less_imp [of "bexp x" j] by linarith

lemma bexp_ge: "2 powi j \<le> \<bar>x\<bar> \<Longrightarrow> j \<le> bexp x"
proof -
  assume a: "2 powi j \<le> \<bar>x\<bar>"
  have "x \<noteq> 0"
  proof
    assume "x = 0"
    with a pow2_pos [of j] show False by simp
  qed
  from bexp_bracket(2) [OF this] a have "(2::real) powi j < 2 powi (bexp x + 1)" by linarith
  then have "j < bexp x + 1" by (rule pow2_less_imp)
  then show ?thesis by simp
qed

lemma bexp_mono: "x \<noteq> 0 \<Longrightarrow> \<bar>x\<bar> \<le> \<bar>y\<bar> \<Longrightarrow> bexp x \<le> bexp y"
  using bexp_bracket(1) [of x] bexp_ge [of "bexp x" y] by linarith

lemma bexp_minus: "bexp (- x) = bexp x"
  by (simp add: bexp_def)

lemma ulp_exp_minus: "ulp_exp (- x) = ulp_exp x"
  by (simp add: ulp_exp_def bexp_minus)

lemma grid32_minus: "grid32 (- x) = - grid32 x"
  by (simp add: grid32_def ulp_exp_minus rhe_minus)


lemma is_f32I:
  "\<bar>m\<bar> < 2 ^ 24 \<Longrightarrow> - 149 \<le> e \<Longrightarrow> e \<le> 104 \<Longrightarrow> x = of_int m * 2 powi e \<Longrightarrow> is_f32 x"
  unfolding is_f32_def by blast

lemma is_f32_0: "is_f32 0"
  by (rule is_f32I [of 0 0]) simp_all

lemma is_f32_minus: "is_f32 x \<Longrightarrow> is_f32 (- x)"
proof -
  assume "is_f32 x"
  then obtain m e where "\<bar>m\<bar> < 2 ^ 24" "- 149 \<le> e" "e \<le> 104" "x = of_int m * 2 powi e"
    unfolding is_f32_def by blast
  then show ?thesis by (intro is_f32I [of "- m" e]) simp_all
qed

lemma is_f32_abs_less:
  assumes "is_f32 x"
  shows "\<bar>x\<bar> < 2 ^ 128"
proof -
  from assms obtain m e where m: "\<bar>m\<bar> < 2 ^ 24" and e: "e \<le> 104" and x: "x = of_int m * 2 powi e"
    unfolding is_f32_def by blast
  have "\<bar>x\<bar> = \<bar>of_int m\<bar> * 2 powi e" by (simp add: x abs_mult)
  also have "\<dots> \<le> \<bar>of_int m\<bar> * 2 powi 104"
    by (intro mult_left_mono pow2_mono e) simp
  also have "\<dots> < 2 ^ 24 * 2 powi 104"
  proof (rule mult_strict_right_mono)
    have "real_of_int \<bar>m\<bar> < real_of_int (2 ^ 24)" using m by (simp only: of_int_less_iff)
    then show "\<bar>real_of_int m\<bar> < 2 ^ 24" by simp
  qed simp
  also have "\<dots> = 2 ^ 128" by simp
  finally show ?thesis .
qed

lemma grid32_f32:
  assumes "is_f32 x" and nz: "x \<noteq> 0"
  shows "grid32 x = x"
proof -
  from assms obtain m e where m: "\<bar>m\<bar> < 2 ^ 24" and e: "- 149 \<le> e"
    and x: "x = of_int m * 2 powi e"
    unfolding is_f32_def by blast
  have am: "\<bar>real_of_int m\<bar> < 2 ^ 24"
  proof -
    have "real_of_int \<bar>m\<bar> < real_of_int (2 ^ 24)" using m by (simp only: of_int_less_iff)
    then show ?thesis by simp
  qed
  have "\<bar>x\<bar> = \<bar>of_int m\<bar> * 2 powi e" by (simp add: x abs_mult)
  also have "\<dots> < 2 ^ 24 * 2 powi e"
    by (rule mult_strict_right_mono [OF am]) simp
  also have "\<dots> = 2 powi (24 + e)" by (simp add: pow2_add)
  finally have "bexp x < 24 + e" by (rule bexp_less [OF nz])
  with e have u: "ulp_exp x \<le> e" by (simp add: ulp_exp_def)
  define u where "u = ulp_exp x"
  from u have ue: "u \<le> e" by (simp add: u_def)
  have "2 powi e = (2::real) powi (e - u) * 2 powi u"
    using pow2_add [of "e - u" u] by simp
  also have "(2::real) powi (e - u) = 2 ^ nat (e - u)"
    using ue by (simp add: power_int_nonneg_exp)
  finally have pe: "(2::real) powi e = 2 ^ nat (e - u) * 2 powi u" .
  have "x / 2 powi u = of_int m * 2 ^ nat (e - u)"
    by (simp add: x pe)
  also have "\<dots> = of_int (m * 2 ^ nat (e - u))" by simp
  finally have q: "x / 2 powi u = of_int (m * 2 ^ nat (e - u))" .
  have "grid32 x = of_int (m * 2 ^ nat (e - u)) * 2 powi u"
    unfolding grid32_def u_def [symmetric] q rhe_of_int ..
  also have "\<dots> = x" by (simp add: x pe)
  finally show ?thesis .
qed


lemma rnd32_0: "rnd32 0 = Fin 0"
  by (simp add: rnd32_def)

lemma rnd32_f32: "is_f32 x \<Longrightarrow> rnd32 x = Fin x"
  using grid32_f32 [of x] is_f32_abs_less [of x] by (simp add: rnd32_def)

lemma rnd32_minus: "rnd32 (- x) = fneg (rnd32 x)"
  by (simp add: rnd32_def grid32_minus signed_inf_def)

lemma rnd32_not_NaN: "rnd32 x \<noteq> NaN"
  by (simp add: rnd32_def signed_inf_def)

lemma scaled_less:
  assumes "0 < x"
  shows "x / 2 powi ulp_exp x < 2 ^ 24"
proof -
  have nz: "x \<noteq> 0" using assms by simp
  have "bexp x + 1 \<le> ulp_exp x + 24" by (simp add: ulp_exp_def)
  then have "(2::real) powi (bexp x + 1) \<le> 2 powi (ulp_exp x + 24)" by (rule pow2_mono)
  with bexp_bracket(2) [OF nz] assms have "x < 2 powi (ulp_exp x + 24)" by simp
  also have "\<dots> = 2 powi ulp_exp x * 2 ^ 24" by (simp add: pow2_add)
  finally show ?thesis by (simp add: pos_divide_less_eq mult.commute)
qed

lemma rhe_scaled_bounds:
  assumes "0 < x"
  shows "0 \<le> round_half_even (x / 2 powi ulp_exp x)"
    and "round_half_even (x / 2 powi ulp_exp x) \<le> 2 ^ 24"
proof -
  have "real_of_int 0 \<le> x / 2 powi ulp_exp x" using assms by simp
  then show "0 \<le> round_half_even (x / 2 powi ulp_exp x)" by (rule rhe_ge_int)
  have "x / 2 powi ulp_exp x \<le> real_of_int (2 ^ 24)"
    using scaled_less [OF assms] by simp
  then show "round_half_even (x / 2 powi ulp_exp x) \<le> 2 ^ 24" by (rule rhe_le_int)
qed

lemma grid32_nonneg: "0 < x \<Longrightarrow> 0 \<le> grid32 x"
  using rhe_scaled_bounds(1) [of x] by (simp add: grid32_def)

lemma grid32_closed_pos:
  assumes x: "0 < x" and fin: "grid32 x < 2 ^ 128"
  shows "is_f32 (grid32 x)"
proof -
  define u where "u = ulp_exp x"
  define n where "n = round_half_even (x / 2 powi u)"
  have g: "grid32 x = of_int n * 2 powi u" by (simp add: grid32_def u_def n_def)
  have n0: "0 \<le> n" and n24: "n \<le> 2 ^ 24"
    using rhe_scaled_bounds [OF x] by (simp_all add: n_def u_def)
  have u149: "- 149 \<le> u" by (simp add: u_def ulp_exp_def)
  show ?thesis
  proof (cases "n = 2 ^ 24")
    case True
    then have gv: "grid32 x = 2 powi (u + 24)" by (simp add: g pow2_add)
    with fin have "(2::real) powi (u + 24) < 2 powi 128" by simp
    then have "u + 24 < 128" by (rule pow2_less_imp)
    then have "u + 1 \<le> 104" by simp
    moreover have "grid32 x = of_int (2 ^ 23) * 2 powi (u + 1)"
      by (simp add: gv pow2_add)
    ultimately show ?thesis using u149 by (intro is_f32I [of "2 ^ 23" "u + 1"]) simp_all
  next
    case False
    with n24 n0 have nlt: "\<bar>n\<bar> < 2 ^ 24" by simp
    have "u \<le> 104"
    proof (rule ccontr)
      assume "\<not> u \<le> 104"
      then have big: "105 \<le> u" by simp
      then have ub: "u = bexp x - 23" by (simp add: u_def ulp_exp_def)
      have nz: "x \<noteq> 0" using x by simp
      have "(2::real) powi (u + 23) \<le> x"
        using bexp_bracket(1) [OF nz] x by (simp add: ub)
      then have "real_of_int (2 ^ 23) \<le> x / 2 powi u"
        by (simp add: pow2_add pos_le_divide_eq mult.commute)
      then have "2 ^ 23 \<le> n" unfolding n_def by (rule rhe_ge_int)
      then have "real_of_int (2 ^ 23) \<le> real_of_int n" by (simp only: of_int_le_iff)
      then have A: "(2::real) ^ 23 * 2 powi u \<le> of_int n * 2 powi u"
        by (intro mult_right_mono) simp_all
      have "(2::real) powi 105 \<le> 2 powi u" using big by (rule pow2_mono)
      then have B: "(2::real) ^ 23 * 2 powi 105 \<le> 2 ^ 23 * 2 powi u"
        by (intro mult_left_mono) simp_all
      have "(2::real) ^ 128 = 2 ^ 23 * 2 powi 105" by simp
      also note B
      also note A
      finally have "(2::real) ^ 128 \<le> grid32 x" by (simp only: g)
      with fin show False by simp
    qed
    with nlt u149 g show ?thesis by (intro is_f32I [of n u]) simp_all
  qed
qed

lemma grid32_mono_pos:
  assumes x: "0 < x" and xy: "x \<le> y"
  shows "grid32 x \<le> grid32 y"
proof -
  have y: "0 < y" using x xy by simp
  have nzx: "x \<noteq> 0" and nzy: "y \<noteq> 0" using x y by simp_all
  have k: "bexp x \<le> bexp y" using bexp_mono [OF nzx, of y] x xy by simp
  then have u: "ulp_exp x \<le> ulp_exp y" by (simp add: ulp_exp_def)
  show ?thesis
  proof (cases "ulp_exp x = ulp_exp y")
    case True
    have "x / 2 powi ulp_exp y \<le> y / 2 powi ulp_exp y"
      using xy by (simp add: divide_right_mono)
    then have "round_half_even (x / 2 powi ulp_exp y) \<le> round_half_even (y / 2 powi ulp_exp y)"
      by (rule rhe_mono)
    then have "real_of_int (round_half_even (x / 2 powi ulp_exp y))
        \<le> real_of_int (round_half_even (y / 2 powi ulp_exp y))" by (simp only: of_int_le_iff)
    then show ?thesis
      unfolding grid32_def True by (intro mult_right_mono) simp_all
  next
    case False
    with u have lt: "ulp_exp x < ulp_exp y" by simp
    then have uy: "ulp_exp y = bexp y - 23" by (auto simp: ulp_exp_def max_def split: if_splits)
    from lt have kk: "bexp x + 1 \<le> bexp y" by (auto simp: ulp_exp_def max_def split: if_splits)
    define M where "M = max (bexp x + 1) (ulp_exp x)"
    have Mk: "M \<le> bexp y" using kk lt uy by (simp add: M_def)
    have Mu: "ulp_exp x \<le> M" by (simp add: M_def)
    have "x < 2 powi (bexp x + 1)" using bexp_bracket(2) [OF nzx] x by simp
    also have "\<dots> \<le> 2 powi M" by (rule pow2_mono) (simp add: M_def)
    finally have "x / 2 powi ulp_exp x \<le> 2 powi M / 2 powi ulp_exp x"
      by (simp add: divide_right_mono)
    also have "\<dots> = 2 powi (M - ulp_exp x)" by (simp add: pow2_diff)
    also have "\<dots> = real_of_int (2 ^ nat (M - ulp_exp x))"
      using Mu by (simp add: power_int_nonneg_exp)
    finally have "round_half_even (x / 2 powi ulp_exp x) \<le> 2 ^ nat (M - ulp_exp x)"
      by (rule rhe_le_int)
    then have "real_of_int (round_half_even (x / 2 powi ulp_exp x))
        \<le> real_of_int (2 ^ nat (M - ulp_exp x))" by (simp only: of_int_le_iff)
    then have "grid32 x \<le> real_of_int (2 ^ nat (M - ulp_exp x)) * 2 powi ulp_exp x"
      unfolding grid32_def by (intro mult_right_mono) simp_all
    also have "\<dots> = 2 powi (M - ulp_exp x) * 2 powi ulp_exp x"
      using Mu by (simp add: power_int_nonneg_exp)
    also have "\<dots> = 2 powi M" using pow2_add [of "M - ulp_exp x" "ulp_exp x"] by simp
    finally have gx: "grid32 x \<le> 2 powi M" .
    have "(2::real) powi bexp y \<le> y" using bexp_bracket(1) [OF nzy] y by simp
    then have "2 powi bexp y / 2 powi ulp_exp y \<le> y / 2 powi ulp_exp y"
      by (simp add: divide_right_mono)
    moreover have "(2::real) powi bexp y / 2 powi ulp_exp y = real_of_int (2 ^ 23)"
      using pow2_diff [of "bexp y" "ulp_exp y"] by (simp add: uy)
    ultimately have "2 ^ 23 \<le> round_half_even (y / 2 powi ulp_exp y)"
      by (intro rhe_ge_int) simp
    then have "real_of_int (2 ^ 23) \<le> real_of_int (round_half_even (y / 2 powi ulp_exp y))"
      by (simp only: of_int_le_iff)
    then have "real_of_int (2 ^ 23) * 2 powi ulp_exp y \<le> grid32 y"
      unfolding grid32_def by (intro mult_right_mono) simp_all
    moreover have "real_of_int (2 ^ 23) * 2 powi ulp_exp y = 2 powi bexp y"
      using pow2_add [of 23 "ulp_exp y"] by (simp add: uy)
    ultimately have gy: "2 powi bexp y \<le> grid32 y" by simp
    have "(2::real) powi M \<le> 2 powi bexp y" using Mk by (rule pow2_mono)
    with gx gy show ?thesis by linarith
  qed
qed


lemma rnd32_pos_cases:
  assumes "0 < x"
  obtains "rnd32 x = PInf" and "2 ^ 128 \<le> grid32 x"
  | "rnd32 x = Fin (grid32 x)" and "0 \<le> grid32 x" and "grid32 x < 2 ^ 128"
    and "is_f32 (grid32 x)"
proof (cases "2 ^ 128 \<le> grid32 x")
  case True
  with assms grid32_nonneg [OF assms] have "rnd32 x = PInf"
    by (simp add: rnd32_def signed_inf_def)
  with True that(1) show ?thesis by blast
next
  case False
  then have lt: "grid32 x < 2 ^ 128" by simp
  with assms grid32_nonneg [OF assms] have "rnd32 x = Fin (grid32 x)"
    by (simp add: rnd32_def)
  with lt grid32_nonneg [OF assms] grid32_closed_pos [OF assms lt] that(2) show ?thesis by blast
qed

lemma rnd32_closed: "fl_ok (rnd32 x)"
proof -
  have pos: "fl_ok (rnd32 z)" if "0 < z" for z
    using that by (rule rnd32_pos_cases) simp_all
  consider "0 < x" | "x = 0" | "0 < - x" by linarith
  then show ?thesis
  proof cases
    case 1
    then show ?thesis by (rule pos)
  next
    case 2
    then show ?thesis by (simp add: rnd32_0 is_f32_0)
  next
    case 3
    from pos [OF 3] have "fl_ok (fneg (rnd32 x))" by (simp add: rnd32_minus)
    then show ?thesis by (cases "rnd32 x") (auto dest: is_f32_minus)
  qed
qed

lemma fle_refl: "a \<noteq> NaN \<Longrightarrow> fle a a"
  by (cases a) simp_all

lemma fle_trans: "fle a b \<Longrightarrow> fle b c \<Longrightarrow> fle a c"
  by (cases a; cases b; cases c) simp_all

lemma fle_fneg: "fle a b \<Longrightarrow> fle (fneg b) (fneg a)"
  by (cases a; cases b) simp_all

lemma rnd32_mono_pos:
  assumes "0 < x" and "x \<le> y"
  shows "fle (rnd32 x) (rnd32 y)"
proof -
  have y: "0 < y" using assms by simp
  have g: "grid32 x \<le> grid32 y" by (rule grid32_mono_pos [OF assms])
  show ?thesis
  proof (rule rnd32_pos_cases [OF y])
    assume "rnd32 y = PInf"
    then show ?thesis using rnd32_not_NaN [of x] by (cases "rnd32 x") simp_all
  next
    assume ry: "rnd32 y = Fin (grid32 y)" and lt: "grid32 y < 2 ^ 128"
    show ?thesis
    proof (rule rnd32_pos_cases [OF assms(1)])
      assume "2 ^ 128 \<le> grid32 x"
      with g lt show ?thesis by simp
    next
      assume "rnd32 x = Fin (grid32 x)"
      with ry g show ?thesis by simp
    qed
  qed
qed

lemma rnd32_nonneg: "0 \<le> x \<Longrightarrow> fle (Fin 0) (rnd32 x)"
proof (cases "x = 0")
  case True
  then show ?thesis by (simp add: rnd32_0)
next
  case False
  assume "0 \<le> x"
  with False have "0 < x" by simp
  then show ?thesis by (rule rnd32_pos_cases) simp_all
qed

lemma rnd32_nonpos:
  assumes "x \<le> 0"
  shows "fle (rnd32 x) (Fin 0)"
proof -
  have "fle (Fin 0) (rnd32 (- x))" using assms by (intro rnd32_nonneg) simp
  then have "fle (fneg (rnd32 (- x))) (fneg (Fin 0))" by (rule fle_fneg)
  then show ?thesis by (simp add: rnd32_minus) (cases "rnd32 x"; simp)
qed

lemma rnd32_mono:
  assumes "x \<le> y"
  shows "fle (rnd32 x) (rnd32 y)"
proof -
  consider "0 < x" | "x \<le> 0" "0 \<le> y" | "y < 0" using assms by linarith
  then show ?thesis
  proof cases
    case 1
    then show ?thesis using assms by (rule rnd32_mono_pos)
  next
    case 2
    then show ?thesis using fle_trans [OF rnd32_nonpos rnd32_nonneg] by blast
  next
    case 3
    then have "0 < - y" "- y \<le> - x" using assms by simp_all
    then have "fle (rnd32 (- y)) (rnd32 (- x))" by (rule rnd32_mono_pos)
    then have "fle (fneg (rnd32 (- x))) (fneg (rnd32 (- y)))" by (rule fle_fneg)
    then show ?thesis by (simp add: rnd32_minus) (cases "rnd32 x"; cases "rnd32 y"; simp)
  qed
qed

lemma rnd32_bounded:
  assumes C: "is_f32 C" and y: "\<bar>y\<bar> \<le> C"
  obtains r where "rnd32 y = Fin r" and "\<bar>r\<bar> \<le> C" and "is_f32 r"
proof -
  have "fle (rnd32 y) (rnd32 C)" using y by (intro rnd32_mono) simp
  then have up: "fle (rnd32 y) (Fin C)" by (simp add: rnd32_f32 [OF C])
  have "fle (rnd32 (- C)) (rnd32 y)" using y by (intro rnd32_mono) simp
  then have lo: "fle (Fin (- C)) (rnd32 y)"
    by (simp add: rnd32_f32 [OF is_f32_minus [OF C]])
  from up lo obtain r where r: "rnd32 y = Fin r" and "\<bar>r\<bar> \<le> C"
    by (cases "rnd32 y") auto
  moreover have "is_f32 r" using rnd32_closed [of y] by (simp add: r)
  ultimately show ?thesis by (rule that)
qed


lemma rnd32_eval:
  assumes "2 powi k \<le> \<bar>x\<bar>" and "\<bar>x\<bar> < 2 powi (k + 1)"
    and "u = max (- 149) (k - 23)"
    and "round_half_even (x / 2 powi u) = n"
    and "\<bar>real_of_int n * 2 powi u\<bar> < 2 ^ 128"
  shows "rnd32 x = Fin (of_int n * 2 powi u)"
proof -
  have k: "bexp x = k" by (rule bexp_eqI [OF assms(1,2)])
  have "0 < \<bar>x\<bar>" using assms(1) zero_less_power_int [of "2::real" k] by linarith
  then have nz: "x \<noteq> 0" by simp
  have "grid32 x = of_int n * 2 powi u"
    by (simp add: grid32_def ulp_exp_def k assms(3) [symmetric] assms(4))
  with nz assms(5) show ?thesis by (simp add: rnd32_def)
qed

lemma rnd32_eval_inf:
  assumes "2 powi k \<le> \<bar>x\<bar>" and "\<bar>x\<bar> < 2 powi (k + 1)"
    and "u = max (- 149) (k - 23)"
    and "round_half_even (x / 2 powi u) = n"
    and "2 ^ 128 \<le> \<bar>real_of_int n * 2 powi u\<bar>"
  shows "rnd32 x = signed_inf x"
proof -
  have k: "bexp x = k" by (rule bexp_eqI [OF assms(1,2)])
  have "0 < \<bar>x\<bar>" using assms(1) zero_less_power_int [of "2::real" k] by linarith
  then have nz: "x \<noteq> 0" by simp
  have "grid32 x = of_int n * 2 powi u"
    by (simp add: grid32_def ulp_exp_def k assms(3) [symmetric] assms(4))
  with nz assms(5) show ?thesis by (simp add: rnd32_def)
qed

lemma is_f32_of_int:
  assumes "\<bar>n\<bar> \<le> 2 ^ 24"
  shows "is_f32 (of_int n)"
proof (cases "\<bar>n\<bar> = 2 ^ 24")
  case True
  then have "n = 2 ^ 24 \<or> n = - (2 ^ 24)" by auto
  then show ?thesis
  proof
    assume "n = 2 ^ 24"
    then show ?thesis by (intro is_f32I [of "2 ^ 23" 1]) simp_all
  next
    assume "n = - (2 ^ 24)"
    then show ?thesis by (intro is_f32I [of "- (2 ^ 23)" 1]) simp_all
  qed
next
  case False
  with assms have "\<bar>n\<bar> < 2 ^ 24" by simp
  then show ?thesis by (intro is_f32I [of n 0]) simp_all
qed

lemma is_f32_of_nat: "n \<le> 2 ^ 24 \<Longrightarrow> is_f32 (of_nat n)"
  using is_f32_of_int [of "int n"] by simp

lemma is_f32_1: "is_f32 1"
  using is_f32_of_int [of 1] by simp

lemma is_f32_numeral: "numeral k \<le> (2 ^ 24 :: int) \<Longrightarrow> is_f32 (numeral k)"
  using is_f32_of_int [of "numeral k"] by simp

lemma f32_multiple_min:
  assumes "is_f32 x"
  obtains c :: int where "x = of_int c * 2 powi (- 149)"
proof -
  from assms obtain m e where e: "- 149 \<le> e" and x: "x = of_int m * 2 powi e"
    unfolding is_f32_def by blast
  have "(2::real) powi e = 2 powi (e + 149) * 2 powi (- 149)"
    using pow2_add [of "e + 149" "- 149"] by simp
  also have "(2::real) powi (e + 149) = 2 ^ nat (e + 149)"
    using e by (simp add: power_int_nonneg_exp)
  finally have "x = of_int (m * 2 ^ nat (e + 149)) * 2 powi (- 149)"
    by (simp add: x)
  then show ?thesis by (rule that)
qed

lemma is_f32_min: "is_f32 (2 powi (- 149))"
  by (rule is_f32I [of 1 "- 149"]) simp_all

lemma rnd32_sum_pos:
  assumes "is_f32 x" and "is_f32 e" and "0 < x + e"
  shows "flt (Fin 0) (rnd32 (x + e))"
proof -
  from assms(1) obtain a :: int where a: "x = of_int a * 2 powi (- 149)" by (rule f32_multiple_min)
  from assms(2) obtain b :: int where b: "e = of_int b * 2 powi (- 149)" by (rule f32_multiple_min)
  have s: "x + e = of_int (a + b) * 2 powi (- 149)" by (simp add: a b algebra_simps)
  with assms(3) have "0 < real_of_int (a + b)" by (simp add: zero_less_mult_iff)
  then have "1 \<le> a + b" by simp
  then have "real_of_int 1 \<le> real_of_int (a + b)" by (simp only: of_int_le_iff)
  then have "1 * 2 powi (- 149) \<le> real_of_int (a + b) * 2 powi (- 149)"
    by (intro mult_right_mono) simp_all
  then have "2 powi (- 149) \<le> x + e" by (simp only: s)
  then have "fle (rnd32 (2 powi (- 149))) (rnd32 (x + e))" by (rule rnd32_mono)
  then have "fle (Fin (2 powi (- 149))) (rnd32 (x + e))"
    by (simp only: rnd32_f32 [OF is_f32_min])
  moreover have "0 < (2::real) powi (- 149)" by simp
  ultimately show ?thesis by (cases "rnd32 (x + e)") auto
qed

lemma rnd32_sum_neg:
  assumes "is_f32 x" and "is_f32 e" and "x + e < 0"
  shows "flt (rnd32 (x + e)) (Fin 0)"
proof -
  have "flt (Fin 0) (rnd32 (- x + - e))"
    using assms by (intro rnd32_sum_pos is_f32_minus) simp_all
  moreover have "- x + - e = - (x + e)" by simp
  ultimately have "flt (Fin 0) (fneg (rnd32 (x + e)))" by (simp only: rnd32_minus)
  then show ?thesis by (cases "rnd32 (x + e)") simp_all
qed

lemma is_f32_double:
  assumes "is_f32 x" and "\<bar>2 * x\<bar> < 2 ^ 128"
  shows "is_f32 (2 * x)"
proof -
  from assms(1) obtain m e where m: "\<bar>m\<bar> < 2 ^ 24" and e: "- 149 \<le> e" "e \<le> 104"
    and x: "x = of_int m * 2 powi e"
    unfolding is_f32_def by blast
  show ?thesis
  proof (cases "e = 104")
    case False
    with e have "e + 1 \<le> 104" by simp
    moreover have "2 * x = of_int m * 2 powi (e + 1)" by (simp add: x pow2_add)
    ultimately show ?thesis using m e by (intro is_f32I [of m "e + 1"]) simp_all
  next
    case True
    have "\<bar>2 * x\<bar> = real_of_int \<bar>2 * m\<bar> * 2 powi 104"
      by (simp add: x True abs_mult)
    with assms(2) have "real_of_int \<bar>2 * m\<bar> * 2 powi 104 < 2 ^ 24 * 2 powi 104" by simp
    then have "real_of_int \<bar>2 * m\<bar> < real_of_int (2 ^ 24)"
      by (simp only: mult_less_cancel_right_pos [OF pow2_pos]) simp
    then have "\<bar>2 * m\<bar> < 2 ^ 24" by (simp only: of_int_less_iff)
    moreover have "2 * x = of_int (2 * m) * 2 powi 104" by (simp add: x True)
    ultimately show ?thesis by (intro is_f32I [of "2 * m" 104]) simp_all
  qed
qed

section \<open>Arithmetic: properties\<close>

lemma fl_ok_fadd: "fl_ok (fadd a b)"
  by (cases a; cases b) (simp_all add: rnd32_closed)

lemma fl_ok_fmul: "fl_ok (fmul a b)"
  by (cases a; cases b) (simp_all add: rnd32_closed signed_inf_def)

lemma fl_ok_fdiv: "fl_ok (fdiv a b)"
  by (cases a; cases b) (simp_all add: rnd32_closed signed_inf_def is_f32_0)

lemma fl_ok_fneg: "fl_ok a \<Longrightarrow> fl_ok (fneg a)"
  by (cases a) (simp_all add: is_f32_minus)

lemma fl_ok_flog: "fl_ok (flog a)"
  by (cases a) (simp_all add: rnd32_closed)

lemma fl_ok_fsqrt: "fl_ok (fsqrt a)"
  by (cases a) (simp_all add: rnd32_closed)

lemma fadd_commute: "fadd a b = fadd b a"
  by (cases a; cases b) (simp_all add: add.commute)

lemma fmul_commute: "fmul a b = fmul b a"
  by (cases a; cases b) (simp_all add: mult.commute)

lemma fmin_commute: "fmin a b = fmin b a"
  by (cases a; cases b) (auto simp: fmin_def)

lemma rnd32_1: "rnd32 1 = Fin 1"
  by (rule rnd32_f32 [OF is_f32_1])

lemma fmul_one: "fl_ok a \<Longrightarrow> fmul a (Fin 1) = a"
  by (cases a) (simp_all add: rnd32_f32 signed_inf_def)

lemma fmul_zero: "is_fin a \<Longrightarrow> fmul a (Fin 0) = Fin 0"
  by (cases a) (simp_all add: rnd32_0)

lemma fadd_zero_left: "fl_ok a \<Longrightarrow> fadd (Fin 0) a = a"
  by (cases a) (simp_all add: rnd32_f32)

lemma fadd_zero_right: "fl_ok a \<Longrightarrow> fadd a (Fin 0) = a"
  by (cases a) (simp_all add: rnd32_f32)

lemma fdiv_one: "fl_ok a \<Longrightarrow> fdiv a (Fin 1) = a"
  by (cases a) (simp_all add: rnd32_f32)

lemma fsum_Nil: "fsum [] = Fin 0"
  by (simp add: fsum_def)

lemma fl_ok_foldl_fadd: "fl_ok acc \<Longrightarrow> fl_ok (foldl fadd acc xs)"
  by (induction xs arbitrary: acc) (simp_all add: fl_ok_fadd)

lemma fl_ok_fsum: "fl_ok (fsum xs)"
  unfolding fsum_def by (rule fl_ok_foldl_fadd) (simp add: is_f32_0)

section \<open>Broadcasting: properties\<close>

lemma bcast_same: "length a = length b \<Longrightarrow> bcast f a b = Inr (map2 f a b)"
  by (simp add: bcast_def)

lemma map2_commute:
  assumes "\<And>x y. f x y = g y x"
  shows "map2 f xs ys = map2 g ys xs"
proof (induction xs arbitrary: ys)
  case Nil
  show ?case by simp
next
  case (Cons x xs)
  show ?case
  proof (cases ys)
    case Nil
    then show ?thesis by simp
  next
    case (Cons y ys')
    then show ?thesis using Cons.IH [of ys'] by (simp add: assms)
  qed
qed

lemma bcast_commute:
  assumes "\<And>x y. f x y = g y x"
  shows "bcast f a b = bcast g b a"
proof (cases "length a = length b")
  case True
  then show ?thesis using map2_commute [of f g a b, OF assms] by (simp add: bcast_def)
next
  case False
  then show ?thesis by (auto simp: bcast_def assms)
qed

lemma bcast_index:
  assumes "length a = length b \<or> length a = 1 \<or> length b = 1"
  shows "bcast f a b = Inr (map (\<lambda>k. f (bpick a k) (bpick b k)) [0..<blen a b])"
proof (cases "length a = length b")
  case True
  have "map2 f a b = map (\<lambda>k. f (bpick a k) (bpick b k)) [0..<length a]"
  proof (rule nth_equalityI)
    show "length (map2 f a b) = length (map (\<lambda>k. f (bpick a k) (bpick b k)) [0..<length a])"
      using True by simp
  next
    fix i
    assume "i < length (map2 f a b)"
    then have i: "i < length a" "i < length b" by simp_all
    from i have "a \<noteq> []" "b \<noteq> []" by auto
    then have "hd a = a ! 0" "hd b = b ! 0" by (simp_all add: hd_conv_nth)
    then have "bpick a i = a ! i" "bpick b i = b ! i"
      using i by (auto simp: bpick_def)
    with i show "map2 f a b ! i = map (\<lambda>k. f (bpick a k) (bpick b k)) [0..<length a] ! i"
      by simp
  qed
  with True show ?thesis by (simp add: bcast_def blen_def)
next
  case False
  show ?thesis
  proof (cases "length a = 1")
    case True
    have "map (f (hd a)) b = map (\<lambda>k. f (bpick a k) (bpick b k)) [0..<length b]"
      using True False by (intro nth_equalityI) (simp_all add: bpick_def)
    with True False show ?thesis by (simp add: bcast_def blen_def)
  next
    case na: False
    with False assms have lb: "length b = 1" by simp
    have "map (\<lambda>x. f x (hd b)) a = map (\<lambda>k. f (bpick a k) (bpick b k)) [0..<length a]"
      using na lb by (intro nth_equalityI) (simp_all add: bpick_def)
    with na False lb show ?thesis by (simp add: bcast_def blen_def)
  qed
qed

lemma bpick_mem:
  assumes "length a = length b \<or> length a = 1 \<or> length b = 1" and "k < blen a b"
  shows "bpick a k \<in> set a" and "bpick b k \<in> set b"
proof -
  show "bpick a k \<in> set a"
  proof (cases "length a = 1")
    case True
    then have "a \<noteq> []" by auto
    with True show ?thesis by (simp add: bpick_def)
  next
    case False
    with assms have "k < length a" by (auto simp: blen_def split: if_splits)
    with False show ?thesis by (simp add: bpick_def)
  qed
  show "bpick b k \<in> set b"
  proof (cases "length b = 1")
    case True
    then have "b \<noteq> []" by auto
    with True show ?thesis by (simp add: bpick_def)
  next
    case False
    with assms have "k < length b" by (auto simp: blen_def split: if_splits)
    with False show ?thesis by (simp add: bpick_def)
  qed
qed

section \<open>Box geometry: properties\<close>

lemma check_bbox_validness_Inl_iff:
  "check_bbox_validness b = Inl AssertionError
     \<longleftrightarrow> (\<exists>e \<in> set b. box_w e < 0 \<or> box_h e < 0)"
  by (auto simp: check_bbox_validness_def list_all_iff not_le)

lemma check_bbox_validness_Inr_iff:
  "check_bbox_validness b = Inr u
     \<longleftrightarrow> (\<forall>e \<in> set b. 0 \<le> box_w e \<and> 0 \<le> box_h e)"
  by (auto simp: check_bbox_validness_def list_all_iff not_le)

lemma check_bbox_validness_error: "check_bbox_validness b = Inl e \<Longrightarrow> e = AssertionError"
  by (auto simp: check_bbox_validness_def split: if_splits)

lemma intersection_at_commute: "intersection_at a b = intersection_at b a"
  by (simp add: intersection_at_def Let_def max.commute fmin_commute)

lemma intersection_commute: "intersection a b = intersection b a"
proof -
  have "bcast intersection_at a b = bcast intersection_at b a"
    by (rule bcast_commute) (rule intersection_at_commute)
  then show ?thesis
    by (cases "check_bbox_validness a"; cases "check_bbox_validness b")
       (auto simp: intersection_def dest: check_bbox_validness_error)
qed

lemma intersection_valid:
  assumes "\<forall>e \<in> set a. 0 \<le> box_w e \<and> 0 \<le> box_h e"
    and "\<forall>e \<in> set b. 0 \<le> box_w e \<and> 0 \<le> box_h e"
  shows "intersection a b = bcast intersection_at a b"
proof -
  have "check_bbox_validness a = Inr ()" "check_bbox_validness b = Inr ()"
    using assms by (simp_all add: check_bbox_validness_Inr_iff)
  then show ?thesis by (simp add: intersection_def)
qed

lemma clamp_diff:
  assumes A: "is_f32 A" "0 \<le> A" "d \<le> A" and B: "is_f32 B" "0 \<le> B" "d \<le> B"
  obtains v where "clamp_min 0 (rnd32 d) = Fin v" and "0 \<le> v" and "v \<le> A" and "v \<le> B"
    and "is_f32 v"
proof -
  have a: "fle (rnd32 d) (Fin A)"
    using rnd32_mono [OF A(3)] by (simp add: rnd32_f32 [OF A(1)])
  have b: "fle (rnd32 d) (Fin B)"
    using rnd32_mono [OF B(3)] by (simp add: rnd32_f32 [OF B(1)])
  show ?thesis
  proof (cases "rnd32 d")
    case (Fin r)
    have ok: "is_f32 r" using rnd32_closed [of d] by (simp add: Fin)
    show ?thesis
    proof (cases "r < 0")
      case True
      with Fin have "clamp_min 0 (rnd32 d) = Fin 0" by (simp add: clamp_min_def)
      then show ?thesis using A(2) B(2) is_f32_0 by (intro that [of 0]) simp_all
    next
      case False
      with Fin have "clamp_min 0 (rnd32 d) = Fin r" by (simp add: clamp_min_def)
      then show ?thesis using False a b Fin ok by (intro that [of r]) simp_all
    qed
  next
    case PInf
    with a show ?thesis by simp
  next
    case NInf
    then have "clamp_min 0 (rnd32 d) = Fin 0" by (simp add: clamp_min_def)
    then show ?thesis using A(2) B(2) is_f32_0 by (intro that [of 0]) simp_all
  next
    case NaN
    with a show ?thesis by simp
  qed
qed

lemma intersection_at_exact:
  assumes a: "box_exact a" and b: "box_exact b"
  obtains wv hv where "intersection_at a b = rnd32 (wv * hv)"
    and "0 \<le> wv" and "wv \<le> box_w a" and "wv \<le> box_w b"
    and "0 \<le> hv" and "hv \<le> box_h a" and "hv \<le> box_h b"
proof -
  let ?x2 = "min (box_x a + box_w a) (box_x b + box_w b)"
  let ?y2 = "min (box_y a + box_h a) (box_y b + box_h b)"
  let ?x1 = "max (box_x a) (box_x b)"
  let ?y1 = "max (box_y a) (box_y b)"
  from a b have sums:
    "fadd (Fin (box_x a)) (Fin (box_w a)) = Fin (box_x a + box_w a)"
    "fadd (Fin (box_x b)) (Fin (box_w b)) = Fin (box_x b + box_w b)"
    "fadd (Fin (box_y a)) (Fin (box_h a)) = Fin (box_y a + box_h a)"
    "fadd (Fin (box_y b)) (Fin (box_h b)) = Fin (box_y b + box_h b)"
    by (simp_all add: box_exact_def rnd32_f32)
  have x2: "fmin (Fin (box_x a + box_w a)) (Fin (box_x b + box_w b)) = Fin ?x2"
    and y2: "fmin (Fin (box_y a + box_h a)) (Fin (box_y b + box_h b)) = Fin ?y2"
    by (auto simp: fmin_def min_def)
  have dx: "fsub (Fin ?x2) (Fin ?x1) = rnd32 (?x2 - ?x1)"
    and dy: "fsub (Fin ?y2) (Fin ?y1) = rnd32 (?y2 - ?y1)"
    by (simp_all add: fsub_def)
  from a b have wa: "is_f32 (box_w a)" "0 \<le> box_w a" and wb: "is_f32 (box_w b)" "0 \<le> box_w b"
    and ha: "is_f32 (box_h a)" "0 \<le> box_h a" and hb: "is_f32 (box_h b)" "0 \<le> box_h b"
    by (simp_all add: box_exact_def)
  have "?x2 - ?x1 \<le> box_w a" "?x2 - ?x1 \<le> box_w b" by auto
  with wa wb obtain wv where wv: "clamp_min 0 (rnd32 (?x2 - ?x1)) = Fin wv"
    "0 \<le> wv" "wv \<le> box_w a" "wv \<le> box_w b"
    using clamp_diff [of "box_w a" "?x2 - ?x1" "box_w b"] by blast
  have "?y2 - ?y1 \<le> box_h a" "?y2 - ?y1 \<le> box_h b" by auto
  with ha hb obtain hv where hv: "clamp_min 0 (rnd32 (?y2 - ?y1)) = Fin hv"
    "0 \<le> hv" "hv \<le> box_h a" "hv \<le> box_h b"
    using clamp_diff [of "box_h a" "?y2 - ?y1" "box_h b"] by blast
  have "intersection_at a b = rnd32 (wv * hv)"
    unfolding intersection_at_def Let_def sums x2 y2 dx dy wv(1) hv(1) by simp
  then show ?thesis using wv(2-4) hv(2-4) by (rule that)
qed

lemma intersection_at_bounds:
  assumes a: "box_exact a" and b: "box_exact b"
  shows "fle (Fin 0) (intersection_at a b)"
    and "fle (intersection_at a b) (box_area a)"
    and "fle (intersection_at a b) (box_area b)"
proof -
  from a b obtain wv hv where i: "intersection_at a b = rnd32 (wv * hv)"
    and w: "0 \<le> wv" "wv \<le> box_w a" "wv \<le> box_w b"
    and h: "0 \<le> hv" "hv \<le> box_h a" "hv \<le> box_h b"
    by (rule intersection_at_exact)
  show "fle (Fin 0) (intersection_at a b)"
    unfolding i using w(1) h(1) by (intro rnd32_nonneg) simp
  have "wv * hv \<le> box_w a * box_h a"
    using w h by (intro mult_mono) simp_all
  then show "fle (intersection_at a b) (box_area a)"
    unfolding i box_area_def by (simp add: rnd32_mono)
  have "wv * hv \<le> box_w b * box_h b"
    using w h by (intro mult_mono) simp_all
  then show "fle (intersection_at a b) (box_area b)"
    unfolding i box_area_def by (simp add: rnd32_mono)
qed

text \<open>
  C4, amended. For two tensors of boxes that are broadcast against each other, with
  representable entries, widths and heights that are not negative and corners \<open>x + w\<close>,
  \<open>y + h\<close> that are representable (so that the two sums of \<^verbatim>\<open>intersection\<close> are exact),
  \<^verbatim>\<open>intersection\<close> returns a tensor of the broadcast size, and each of its entries is
  not negative and at most the area \<^verbatim>\<open>w * h\<close>, as the tensors compute it, of either
  box that went into it.
\<close>

theorem intersection_bounds:
  assumes "\<forall>e \<in> set a. box_exact e" and "\<forall>e \<in> set b. box_exact e"
    and "length a = length b \<or> length a = 1 \<or> length b = 1"
  shows "\<exists>r. intersection a b = Inr r \<and> length r = blen a b \<and>
           (\<forall>k < length r. fle (Fin 0) (r ! k)
                          \<and> fle (r ! k) (box_area (bpick a k))
                          \<and> fle (r ! k) (box_area (bpick b k)))"
proof -
  let ?r = "map (\<lambda>k. intersection_at (bpick a k) (bpick b k)) [0..<blen a b]"
  have valid: "\<forall>e \<in> set a. 0 \<le> box_w e \<and> 0 \<le> box_h e" "\<forall>e \<in> set b. 0 \<le> box_w e \<and> 0 \<le> box_h e"
    using assms(1,2) by (simp_all add: box_exact_def)
  have r: "intersection a b = Inr ?r"
    by (simp only: intersection_valid [OF valid] bcast_index [OF assms(3)])
  have "fle (Fin 0) (?r ! k) \<and> fle (?r ! k) (box_area (bpick a k))
          \<and> fle (?r ! k) (box_area (bpick b k))" if "k < length ?r" for k
  proof -
    from that have k: "k < blen a b" by simp
    from bpick_mem [OF assms(3) k] assms(1,2)
    have "box_exact (bpick a k)" "box_exact (bpick b k)" by blast+
    from intersection_at_bounds [OF this] k show ?thesis by simp
  qed
  with r show ?thesis by (intro exI [of _ ?r]) simp
qed

lemma rnd32_numeral: "numeral k \<le> (2 ^ 24 :: int) \<Longrightarrow> rnd32 (numeral k) = Fin (numeral k)"
  by (rule rnd32_f32) (rule is_f32_numeral)

lemmas f32_small = is_f32_0 is_f32_1 is_f32_numeral rnd32_0 rnd32_1 rnd32_numeral

lemmas box_sel = box_x_def box_y_def box_w_def box_h_def

lemma rnd32_corner: "rnd32 (4 + 3 / 2 ^ 23) = Fin (4 + 1 / 2 ^ 21)"
proof -
  have "rnd32 (4 + 3 / 2 ^ 23) = Fin (of_int 8388609 * 2 powi (- 21))"
    by (rule rnd32_eval [where k = 2]) (simp_all add: round_half_even_def power_int_minus)
  then show ?thesis by (simp add: power_int_minus field_simps)
qed

lemma is_f32_width: "is_f32 (1 + 3 / 2 ^ 23)"
  by (rule is_f32I [of 8388611 "- 23"]) (simp_all add: power_int_minus field_simps)

lemma is_f32_width': "is_f32 (1 + 1 / 2 ^ 21)"
  by (rule is_f32I [of 2097153 "- 21"]) (simp_all add: power_int_minus field_simps)

lemma intersection_at_rounded_corner:
  "intersection_at (3, 0, 1 + 3 / 2 ^ 23, 1) (3, 0, 1 + 3 / 2 ^ 23, 1) = Fin (1 + 1 / 2 ^ 21)"
proof -
  have s: "fadd (Fin 3) (Fin (1 + 3 / 2 ^ 23)) = Fin (4 + 1 / 2 ^ 21)"
    using rnd32_corner by simp
  have m: "fmin (Fin (4 + 1 / 2 ^ 21)) (Fin (4 + 1 / 2 ^ 21)) = Fin (4 + 1 / 2 ^ 21)"
    by (simp add: fmin_def)
  have d: "fsub (Fin (4 + 1 / 2 ^ 21)) (Fin 3) = Fin (1 + 1 / 2 ^ 21)"
    using rnd32_f32 [OF is_f32_width'] by (simp add: fsub_def)
  have c: "clamp_min 0 (Fin (1 + 1 / 2 ^ 21)) = Fin (1 + 1 / 2 ^ 21)"
    by (simp add: clamp_min_def)
  have t: "fadd (Fin 0) (Fin 1) = Fin 1" by (simp add: rnd32_1)
  have m': "fmin (Fin 1) (Fin 1) = Fin 1" by (simp add: fmin_def)
  have d': "fsub (Fin 1) (Fin 0) = Fin 1" by (simp add: fsub_def rnd32_1)
  have c': "clamp_min 0 (Fin 1) = Fin 1" by (simp add: clamp_min_def)
  have p: "fmul (Fin (1 + 1 / 2 ^ 21)) (Fin 1) = Fin (1 + 1 / 2 ^ 21)"
    using rnd32_f32 [OF is_f32_width'] by simp
  show ?thesis
    unfolding intersection_at_def Let_def box_sel fst_conv snd_conv max.idem s m d c t m' d' c' p ..
qed

text \<open>
  C4, as stated, fails: the box \<open>(3, 0, 1 + 3 / 2 ^ 23, 1)\<close> has representable entries and
  a width and a height that are not negative. Its corner \<open>3 + (1 + 3 / 2 ^ 23)\<close> is rounded
  up to \<open>4 + 1 / 2 ^ 21\<close>, so that the intersection of the box with itself is
  \<open>1 + 4 / 2 ^ 23\<close>, more than the area \<open>1 + 3 / 2 ^ 23\<close> of the box.
\<close>

theorem intersection_rounding_counterexample:
  "is_f32 3 \<and> is_f32 (1 + 3 / 2 ^ 23) \<and>
   check_bbox_validness [(3, 0, 1 + 3 / 2 ^ 23, 1)] = Inr () \<and>
   intersection [(3, 0, 1 + 3 / 2 ^ 23, 1)] [(3, 0, 1 + 3 / 2 ^ 23, 1)] = Inr [Fin (1 + 4 / 2 ^ 23)] \<and>
   box_area (3, 0, 1 + 3 / 2 ^ 23, 1) = Fin (1 + 3 / 2 ^ 23) \<and>
   \<not> fle (Fin (1 + 4 / 2 ^ 23)) (Fin (1 + 3 / 2 ^ 23))"
proof -
  have v: "check_bbox_validness [(3, 0, 1 + 3 / 2 ^ 23, 1)] = Inr ()"
    by (simp add: check_bbox_validness_def box_sel)
  have b: "bcast intersection_at [e] [e] = Inr [intersection_at e e]" for e
    by (simp add: bcast_def)
  have "intersection [(3, 0, 1 + 3 / 2 ^ 23, 1)] [(3, 0, 1 + 3 / 2 ^ 23, 1)]
          = Inr [Fin (1 + 1 / 2 ^ 21)]"
    by (simp only: intersection_def v sum.case b intersection_at_rounded_corner)
  then have i: "intersection [(3, 0, 1 + 3 / 2 ^ 23, 1)] [(3, 0, 1 + 3 / 2 ^ 23, 1)]
             = Inr [Fin (1 + 4 / 2 ^ 23)]"
    by simp
  have a: "box_area (3, 0, 1 + 3 / 2 ^ 23, 1) = Fin (1 + 3 / 2 ^ 23)"
    using rnd32_f32 [OF is_f32_width] by (simp add: box_area_def box_sel)
  show ?thesis using v i a is_f32_width by (simp add: f32_small)
qed

lemma box_exact_example:
  "box_exact (0, 0, 2, 2)" "box_exact (1, 1, 2, 2)" "box_exact (5, 5, 1, 1)"
  by (simp_all add: box_exact_def box_sel f32_small)

lemma intersection_example:
  "intersection [(0, 0, 2, 2)] [(1, 1, 2, 2), (5, 5, 1, 1)] = Inr [Fin 1, Fin 0]"
  by (simp add: intersection_def check_bbox_validness_def bcast_def intersection_at_def box_sel
      fmin_def fsub_def clamp_min_def f32_small rnd32_minus Let_def)

theorem intersection_bounds_witness:
  "box_exact (0, 0, 2, 2) \<and> box_exact (1, 1, 2, 2) \<and> box_exact (5, 5, 1, 1) \<and>
   intersection [(0, 0, 2, 2)] [(1, 1, 2, 2), (5, 5, 1, 1)] = Inr [Fin 1, Fin 0] \<and>
   fle (Fin 1) (box_area (0, 0, 2, 2)) \<and> fle (Fin 1) (box_area (1, 1, 2, 2)) \<and>
   fle (Fin 0) (box_area (5, 5, 1, 1))"
proof -
  let ?a = "[(0, 0, 2, 2)] :: bbox list"
  let ?b = "[(1, 1, 2, 2), (5, 5, 1, 1)] :: bbox list"
  have a: "\<forall>e \<in> set ?a. box_exact e" and b: "\<forall>e \<in> set ?b. box_exact e"
    using box_exact_example by simp_all
  have "length ?a = length ?b \<or> length ?a = 1 \<or> length ?b = 1" by simp
  from intersection_bounds [OF a b this] obtain r where r: "intersection ?a ?b = Inr r"
    and k: "\<forall>k < length r. fle (Fin 0) (r ! k) \<and> fle (r ! k) (box_area (bpick ?a k))
               \<and> fle (r ! k) (box_area (bpick ?b k))"
    by blast
  from r have v: "r = [Fin 1, Fin 0]" by (simp add: intersection_example)
  from k [rule_format, of 0] k [rule_format, of 1]
  have "fle (Fin 1) (box_area (0, 0, 2, 2))" "fle (Fin 1) (box_area (1, 1, 2, 2))"
    "fle (Fin 0) (box_area (5, 5, 1, 1))"
    by (simp_all add: v bpick_def)
  with box_exact_example intersection_example show ?thesis by simp
qed

lemma map2_same: "map2 f (map g xs) (map h xs) = map (\<lambda>e. f (g e) (h e)) xs"
  by (induction xs) simp_all

lemma bcast_maps: "bcast f (map g xs) (map h xs) = Inr (map (\<lambda>e. f (g e) (h e)) xs)"
  using map2_same [of f g xs h] by (simp add: bcast_def)

lemma intersection_at_self:
  assumes "box_exact e"
  shows "intersection_at e e = box_area e"
proof -
  from assms have s: "fadd (Fin (box_x e)) (Fin (box_w e)) = Fin (box_x e + box_w e)"
    "fadd (Fin (box_y e)) (Fin (box_h e)) = Fin (box_y e + box_h e)"
    by (simp_all add: box_exact_def rnd32_f32)
  have m: "fmin (Fin v) (Fin v) = Fin v" for v by (simp add: fmin_def)
  from assms have d: "fsub (Fin (box_x e + box_w e)) (Fin (box_x e)) = Fin (box_w e)"
    "fsub (Fin (box_y e + box_h e)) (Fin (box_y e)) = Fin (box_h e)"
    by (simp_all add: fsub_def box_exact_def rnd32_f32)
  from assms have c: "clamp_min 0 (Fin (box_w e)) = Fin (box_w e)"
    "clamp_min 0 (Fin (box_h e)) = Fin (box_h e)"
    by (simp_all add: clamp_min_def box_exact_def)
  show ?thesis
    unfolding intersection_at_def Let_def max.idem s m d c box_area_def ..
qed

lemma iou_at_self:
  assumes "flt (Fin 0) (box_area e)" and "flt (box_area e) (Fin (2 ^ 127))"
  shows "fdiv (box_area e) (fsub (fadd (box_area e) (box_area e)) (box_area e)) = Fin 1"
proof -
  from assms obtain A where A: "box_area e = Fin A" and pos: "0 < A" and up: "A < 2 ^ 127"
    by (cases "box_area e") simp_all
  have "fl_ok (box_area e)" unfolding box_area_def by (rule fl_ok_fmul)
  then have ok: "is_f32 A" by (simp add: A)
  have "is_f32 (2 * A)" using ok pos up by (intro is_f32_double) simp_all
  then have "rnd32 (A + A) = Fin (A + A)" using rnd32_f32 [of "2 * A"] by simp
  then have "fsub (fadd (Fin A) (Fin A)) (Fin A) = Fin A"
    using ok by (simp add: fsub_def rnd32_f32)
  then show ?thesis using pos by (simp add: A rnd32_1)
qed

lemma iou_self:
  assumes "\<forall>e \<in> set a. box_exact e \<and> flt (Fin 0) (box_area e) \<and> flt (box_area e) (Fin (2 ^ 127))"
  shows "iou a a = Inr (map (\<lambda>e. Fin 1) a)"
proof -
  have valid: "\<forall>e \<in> set a. 0 \<le> box_w e \<and> 0 \<le> box_h e"
    using assms by (simp add: box_exact_def)
  have "bcast intersection_at a a = Inr (map (\<lambda>e. intersection_at e e) a)"
    using bcast_maps [of intersection_at "\<lambda>e. e" a "\<lambda>e. e"] by simp
  also have "map (\<lambda>e. intersection_at e e) a = map box_area a"
    using assms by (intro map_cong refl intersection_at_self) simp
  finally have i: "intersection a a = Inr (map box_area a)"
    by (simp only: intersection_valid [OF valid valid])
  have s: "bcast fadd (map box_area a) (map box_area a)
             = Inr (map (\<lambda>e. fadd (box_area e) (box_area e)) a)"
    by (rule bcast_maps)
  have d: "bcast fsub (map (\<lambda>e. fadd (box_area e) (box_area e)) a) (map box_area a)
             = Inr (map (\<lambda>e. fsub (fadd (box_area e) (box_area e)) (box_area e)) a)"
    by (rule bcast_maps)
  have q: "bcast fdiv (map box_area a)
               (map (\<lambda>e. fsub (fadd (box_area e) (box_area e)) (box_area e)) a)
             = Inr (map (\<lambda>e. fdiv (box_area e)
                               (fsub (fadd (box_area e) (box_area e)) (box_area e))) a)"
    by (rule bcast_maps)
  have "map (\<lambda>e. fdiv (box_area e) (fsub (fadd (box_area e) (box_area e)) (box_area e))) a
          = map (\<lambda>e. Fin 1) a"
    using assms by (intro map_cong refl iou_at_self) simp_all
  then show ?thesis
    by (simp only: iou_def i sum.case Let_def s d q)
qed

lemma iou_commute: "iou a b = iou b a"
proof -
  have 1: "intersection a b = intersection b a" by (rule intersection_commute)
  have 2: "bcast fadd (map box_area a) (map box_area b)
             = bcast fadd (map box_area b) (map box_area a)"
    by (rule bcast_commute) (rule fadd_commute)
  show ?thesis by (simp only: iou_def Let_def 1 2)
qed

lemma rnd32_past_24_bits: "rnd32 (2 ^ 24 + 1) = Fin (2 ^ 24)"
proof -
  have "rnd32 (2 ^ 24 + 1) = Fin (of_int 8388608 * 2 powi 1)"
    by (rule rnd32_eval [where k = 24]) (simp_all add: round_half_even_def)
  then show ?thesis by simp
qed

lemma is_f32_pow24: "is_f32 (2 ^ 24)"
  using is_f32_of_int [of "2 ^ 24"] by simp

lemma intersection_at_absorbed:
  "intersection_at (2 ^ 24, 0, 1, 1) (2 ^ 24, 0, 1, 1) = Fin 0"
proof -
  have s: "fadd (Fin (2 ^ 24)) (Fin 1) = Fin (2 ^ 24)"
    using rnd32_past_24_bits by simp
  have m: "fmin (Fin v) (Fin v) = Fin v" for v by (simp add: fmin_def)
  have d: "fsub (Fin (2 ^ 24)) (Fin (2 ^ 24)) = Fin 0"
    by (simp add: fsub_def rnd32_0)
  have c: "clamp_min 0 (Fin 0) = Fin 0" by (simp add: clamp_min_def)
  have t: "fadd (Fin 0) (Fin 1) = Fin 1" by (simp add: rnd32_1)
  have d': "fsub (Fin 1) (Fin 0) = Fin 1" by (simp add: fsub_def rnd32_1)
  have c': "clamp_min 0 (Fin 1) = Fin 1" by (simp add: clamp_min_def)
  have p: "fmul (Fin 0) (Fin 1) = Fin 0" by (simp add: rnd32_0)
  show ?thesis
    unfolding intersection_at_def Let_def box_sel fst_conv snd_conv max.idem s m d c t d' c' p ..
qed

text \<open>
  C5, as stated, fails: the box \<open>(2 ^ 24, 0, 1, 1)\<close> has representable entries, width and
  height \<open>1\<close> and the area \<open>1\<close>. Its corner \<open>2 ^ 24 + 1\<close> is rounded to \<open>2 ^ 24\<close>, the
  intersection of the box with itself is \<open>0\<close>, and \<^verbatim>\<open>iou\<close> of the box with itself is \<open>0\<close>.
\<close>

theorem iou_self_counterexample:
  "is_f32 (2 ^ 24) \<and>
   check_bbox_validness [(2 ^ 24, 0, 1, 1)] = Inr () \<and>
   box_area (2 ^ 24, 0, 1, 1) = Fin 1 \<and>
   iou [(2 ^ 24, 0, 1, 1)] [(2 ^ 24, 0, 1, 1)] = Inr [Fin 0]"
proof -
  have v: "check_bbox_validness [(2 ^ 24, 0, 1, 1)] = Inr ()"
    by (simp add: check_bbox_validness_def box_sel)
  have a: "box_area (2 ^ 24, 0, 1, 1) = Fin 1"
    by (simp add: box_area_def box_sel rnd32_1)
  have b: "bcast f [e] [e'] = Inr [f e e']" for f :: "'a \<Rightarrow> 'b \<Rightarrow> 'c" and e e'
    by (simp add: bcast_def)
  have i: "intersection [(2 ^ 24, 0, 1, 1)] [(2 ^ 24, 0, 1, 1)] = Inr [Fin 0]"
    by (simp only: intersection_def v sum.case b intersection_at_absorbed)
  have q: "fdiv (Fin 0) (fsub (fadd (Fin 1) (Fin 1)) (Fin 0)) = Fin 0"
    by (simp add: fsub_def f32_small)
  have "iou [(2 ^ 24, 0, 1, 1)] [(2 ^ 24, 0, 1, 1)] = Inr [Fin 0]"
    by (simp only: iou_def i sum.case Let_def list.map a b q)
  with v a is_f32_pow24 show ?thesis by simp
qed

text \<open>
  C5, amended. For a tensor \<open>a\<close> of boxes with representable entries, widths and heights
  that are not negative, representable corners \<open>x + w\<close>, \<open>y + h\<close>, and an area \<^verbatim>\<open>w * h\<close>
  that the tensors compute as a positive number below \<open>2 ^ 127\<close>, \<^verbatim>\<open>iou(a, a)\<close> is \<open>1\<close> at
  every index. For all tensors \<open>a\<close> and \<open>b\<close>, \<^verbatim>\<open>iou(a, b)\<close> and \<^verbatim>\<open>iou(b, a)\<close> have the
  same outcome: the same error, or tensors that hold, index by index, the same number, the
  same infinity, or NaN in both.
\<close>

theorem iou_self_and_symmetric:
  "((\<forall>e \<in> set a. box_exact e \<and> flt (Fin 0) (box_area e) \<and> flt (box_area e) (Fin (2 ^ 127)))
      \<longrightarrow> iou a a = Inr (map (\<lambda>e. Fin 1) a))
   \<and> iou a b = iou b a"
  using iou_self [of a] iou_commute [of a b] by blast

lemma rnd32_seventh: "rnd32 (1 / 7) = Fin (9586981 / 2 ^ 26)"
proof -
  have "rnd32 (1 / 7) = Fin (of_int 9586981 * 2 powi (- 26))"
    by (rule rnd32_eval [where k = "- 3"]) (simp_all add: round_half_even_def power_int_minus)
  then show ?thesis by (simp add: power_int_minus field_simps)
qed

lemma iou_example: "iou [(0, 0, 2, 2)] [(1, 1, 2, 2)] = Inr [Fin (9586981 / 2 ^ 26)]"
proof -
  have i: "intersection [(0, 0, 2, 2)] [(1, 1, 2, 2)] = Inr [Fin 1]"
    by (simp add: intersection_def check_bbox_validness_def bcast_def intersection_at_def box_sel
        fmin_def fsub_def clamp_min_def f32_small rnd32_minus Let_def)
  have a: "box_area (0, 0, 2, 2) = Fin 4" "box_area (1, 1, 2, 2) = Fin 4"
    by (simp_all add: box_area_def box_sel f32_small)
  have b: "bcast f [e] [e'] = Inr [f e e']" for f :: "'a \<Rightarrow> 'b \<Rightarrow> 'c" and e e'
    by (simp add: bcast_def)
  have q: "fdiv (Fin 1) (fsub (fadd (Fin 4) (Fin 4)) (Fin 1)) = Fin (9586981 / 2 ^ 26)"
    using rnd32_seventh by (simp add: fsub_def f32_small)
  show ?thesis
    by (simp only: iou_def i sum.case Let_def list.map a b q)
qed

theorem iou_self_and_symmetric_witness:
  "box_exact (1, 2, 3, 4) \<and> box_area (1, 2, 3, 4) = Fin 12 \<and>
   iou [(1, 2, 3, 4)] [(1, 2, 3, 4)] = Inr [Fin 1] \<and>
   iou [(0, 0, 2, 2)] [(1, 1, 2, 2)] = Inr [Fin (9586981 / 2 ^ 26)] \<and>
   iou [(1, 1, 2, 2)] [(0, 0, 2, 2)] = Inr [Fin (9586981 / 2 ^ 26)]"
proof -
  have e: "box_exact (1, 2, 3, 4)"
    by (simp add: box_exact_def box_sel f32_small)
  have a: "box_area (1, 2, 3, 4) = Fin 12"
    by (simp add: box_area_def box_sel f32_small)
  have h: "\<forall>e \<in> set [(1, 2, 3, 4)]. box_exact e \<and> flt (Fin 0) (box_area e)
              \<and> flt (box_area e) (Fin (2 ^ 127))"
    using e a by simp
  have "iou [(1, 2, 3, 4)] [(1, 2, 3, 4)] = Inr (map (\<lambda>e. Fin 1) [(1, 2, 3, 4) :: bbox])"
    using iou_self_and_symmetric [of "[(1, 2, 3, 4)]" "[(1, 2, 3, 4)]"] h by blast
  then have 1: "iou [(1, 2, 3, 4)] [(1, 2, 3, 4)] = Inr [Fin 1]" by simp
  have "iou [(0, 0, 2, 2)] [(1, 1, 2, 2)] = iou [(1, 1, 2, 2)] [(0, 0, 2, 2)]"
    using iou_self_and_symmetric [of "[(0, 0, 2, 2)]" "[(1, 1, 2, 2)]"] by blast
  then have 2: "iou [(1, 1, 2, 2)] [(0, 0, 2, 2)] = Inr [Fin (9586981 / 2 ^ 26)]"
    by (simp only: iou_example)
  from e a 1 2 iou_example show ?thesis by simp
qed

text \<open>
  C6. \<^verbatim>\<open>clamp_bbox\<close> returns, for every box \<open>(x, y, w, h)\<close> of its argument, the box
  \<open>(x, y, max w 0, max h 0)\<close>: \<open>x\<close> and \<open>y\<close> unchanged, width and height clamped to be
  non-negative. In particular the box \<open>(x, y, -2, 3)\<close> becomes \<open>(x, y, 0, 3)\<close>.
\<close>

theorem clamp_bbox_value:
  "clamp_bbox b = map (\<lambda>(x, y, w, h). (x, y, max w 0, max h 0)) b
   \<and> clamp_bbox [(x, y, - 2, 3)] = [(x, y, 0, 3)]"
  by (auto simp: clamp_bbox_def max_def min_def)

text \<open>
  C7. \<^verbatim>\<open>check_bbox_validness\<close> fails with an assertion error if and only if some box of
  the tensor has a negative width or a negative height, and passes otherwise; it fails for
  the box \<open>(0, 0, -1, 2)\<close> and passes for \<open>(0, 0, 0, 0)\<close>. \<^verbatim>\<open>intersection\<close> fails with that
  error exactly when the check fails on one of its two arguments, and computes the
  geometry, on the two tensors broadcast against each other, only when both checks have
  passed.
\<close>

theorem check_bbox_validness_iff:
  "(check_bbox_validness b = Inl AssertionError
      \<longleftrightarrow> (\<exists>e \<in> set b. box_w e < 0 \<or> box_h e < 0))
   \<and> (check_bbox_validness b = Inr ()
      \<longleftrightarrow> \<not> (\<exists>e \<in> set b. box_w e < 0 \<or> box_h e < 0))
   \<and> check_bbox_validness [(0, 0, - 1, 2)] = Inl AssertionError
   \<and> check_bbox_validness [(0, 0, 0, 0)] = Inr ()
   \<and> (intersection a c = Inl AssertionError
      \<longleftrightarrow> check_bbox_validness a = Inl AssertionError
          \<or> check_bbox_validness c = Inl AssertionError)
   \<and> (check_bbox_validness a = Inr () \<and> check_bbox_validness c = Inr ()
      \<longrightarrow> intersection a c = bcast intersection_at a c)"
proof (intro conjI)
  show "check_bbox_validness b = Inl AssertionError
      \<longleftrightarrow> (\<exists>e \<in> set b. box_w e < 0 \<or> box_h e < 0)"
    by (rule check_bbox_validness_Inl_iff)
  show "check_bbox_validness b = Inr ()
      \<longleftrightarrow> \<not> (\<exists>e \<in> set b. box_w e < 0 \<or> box_h e < 0)"
    by (auto simp: check_bbox_validness_Inr_iff not_less)
  show "check_bbox_validness [(0, 0, - 1, 2)] = Inl AssertionError"
    by (simp add: check_bbox_validness_def box_w_def)
  show "check_bbox_validness [(0, 0, 0, 0)] = Inr ()"
    by (simp add: check_bbox_validness_def box_w_def box_h_def)
  show "intersection a c = Inl AssertionError
      \<longleftrightarrow> check_bbox_validness a = Inl AssertionError
          \<or> check_bbox_validness c = Inl AssertionError"
  proof (cases "check_bbox_validness a")
    case (Inl e)
    then show ?thesis using check_bbox_validness_error [OF Inl] by (simp add: intersection_def)
  next
    case a: (Inr u)
    show ?thesis
    proof (cases "check_bbox_validness c")
      case (Inl e)
      then show ?thesis using a check_bbox_validness_error [OF Inl] by (simp add: intersection_def)
    next
      case (Inr u')
      with a show ?thesis by (simp add: intersection_def bcast_def)
    qed
  qed
  show "check_bbox_validness a = Inr () \<and> check_bbox_validness c = Inr ()
      \<longrightarrow> intersection a c = bcast intersection_at a c"
    by (simp add: intersection_def)
qed

theorem check_bbox_validness_iff_witness:
  "(\<exists>e \<in> set [(0, 0, 1, 1), (0, 0, 3, - 1)]. box_w e < 0 \<or> box_h e < 0)
   \<and> check_bbox_validness [(0, 0, 1, 1), (0, 0, 3, - 1)] = Inl AssertionError
   \<and> intersection [(0, 0, 1, 1)] [(0, 0, 1, 1), (0, 0, 3, - 1)] = Inl AssertionError
   \<and> check_bbox_validness [(0, 0, 1, 1)] = Inr ()
   \<and> intersection [(0, 0, 1, 1)] [(0, 0, 1, 1)] = Inr [Fin 1]"
proof -
  let ?bad = "[(0, 0, 1, 1), (0, 0, 3, - 1)] :: bbox list"
  let ?ok = "[(0, 0, 1, 1)] :: bbox list"
  have neg: "\<exists>e \<in> set ?bad. box_w e < 0 \<or> box_h e < 0"
    by (simp add: box_w_def box_h_def)
  have nonneg: "\<not> (\<exists>e \<in> set ?ok. box_w e < 0 \<or> box_h e < 0)"
    by (simp add: box_w_def box_h_def)
  have bad: "check_bbox_validness ?bad = Inl AssertionError"
    using check_bbox_validness_iff [of ?bad ?ok ?bad] neg by blast
  have ok: "check_bbox_validness ?ok = Inr ()"
    using check_bbox_validness_iff [of ?ok ?ok ?ok] nonneg by blast
  have 1: "intersection ?ok ?bad = Inl AssertionError"
    using check_bbox_validness_iff [of ?bad ?ok ?bad] bad by blast
  have "intersection ?ok ?ok = bcast intersection_at ?ok ?ok"
    using check_bbox_validness_iff [of ?ok ?ok ?ok] ok by blast
  then have 2: "intersection ?ok ?ok = Inr [Fin 1]"
    by (simp add: bcast_def intersection_at_def box_sel fmin_def fsub_def clamp_min_def
        f32_small Let_def)
  from neg bad ok 1 2 show ?thesis by blast
qed

section \<open>Negative logarithm: properties\<close>

lemma rnd32_default_eps: "rnd32 default_eps = Fin eps32"
proof -
  have "rnd32 (1 / 10 ^ 8) = Fin (of_int 11258999 * 2 powi (- 50))"
    by (rule rnd32_eval [where k = "- 27"]) (simp_all add: round_half_even_def power_int_minus)
  then show ?thesis by (simp add: default_eps_def eps32_def power_int_minus field_simps)
qed

lemma eps32_pos: "0 < eps32"
  by (simp add: eps32_def)

lemma is_f32_eps32: "is_f32 eps32"
  using rnd32_closed [of default_eps] by (simp add: rnd32_default_eps)

lemma fle_not_flt: "fle a b \<Longrightarrow> \<not> flt b a"
  by (cases a; cases b) simp_all

lemma flt_imp_fle: "flt a b \<Longrightarrow> fle a b"
  by (cases a; cases b) simp_all

lemma rnd32_diff_neg_iff:
  assumes "is_f32 x" and "is_f32 e"
  shows "flt (rnd32 (x - e)) (Fin 0) \<longleftrightarrow> x < e"
proof
  assume "flt (rnd32 (x - e)) (Fin 0)"
  show "x < e"
  proof (rule ccontr)
    assume "\<not> x < e"
    then have "fle (Fin 0) (rnd32 (x - e))" by (intro rnd32_nonneg) simp
    then have "\<not> flt (rnd32 (x - e)) (Fin 0)" by (rule fle_not_flt)
    with \<open>flt (rnd32 (x - e)) (Fin 0)\<close> show False by simp
  qed
next
  assume "x < e"
  then have "flt (rnd32 (x + - e)) (Fin 0)"
    using assms by (intro rnd32_sum_neg is_f32_minus) simp_all
  then show "flt (rnd32 (x - e)) (Fin 0)" by simp
qed

lemma rnd32_sum_pos_iff:
  assumes "is_f32 x" and "is_f32 e"
  shows "flt (Fin 0) (rnd32 (x + e)) \<longleftrightarrow> 0 < x + e"
proof
  assume a: "flt (Fin 0) (rnd32 (x + e))"
  show "0 < x + e"
  proof (rule ccontr)
    assume "\<not> 0 < x + e"
    then have "fle (rnd32 (x + e)) (Fin 0)" by (intro rnd32_nonpos) simp
    then have "\<not> flt (Fin 0) (rnd32 (x + e))" by (rule fle_not_flt)
    with a show False by simp
  qed
next
  assume "0 < x + e"
  with assms show "flt (Fin 0) (rnd32 (x + e))" by (rule rnd32_sum_pos)
qed

lemma nll_dx_value:
  assumes x: "is_f32 x" and e: "rnd32 eps = Fin e"
  shows "nll_dx x eps = (if x < e then Fin e else Fin 0)"
proof -
  have fe: "is_f32 e" using rnd32_closed [of eps] by (simp add: e)
  have c: "flt (fsub (Fin x) (Fin e)) (Fin 0) \<longleftrightarrow> x < e"
    using rnd32_diff_neg_iff [OF x fe] by (simp add: fsub_def)
  show ?thesis
    using fe by (simp add: nll_dx_def e c rnd32_f32 rnd32_0)
qed

lemma nll_arg_value:
  assumes x: "is_f32 x" and e: "rnd32 eps = Fin e"
  shows "nll_arg x eps = (if x < e then rnd32 (x + e) else Fin x)"
  unfolding nll_arg_def Let_def nll_dx_value [OF x e] using x by (simp add: rnd32_f32)

lemma nll_arg_pos_iff:
  assumes x: "is_f32 x" and e: "rnd32 eps = Fin e" and pos: "0 < e"
  shows "flt (Fin 0) (nll_arg x eps) \<longleftrightarrow> - e < x"
proof -
  have fe: "is_f32 e" using rnd32_closed [of eps] by (simp add: e)
  show ?thesis
    unfolding nll_arg_value [OF x e] using rnd32_sum_pos_iff [OF x fe] pos by auto
qed

lemma nll_at_minus_eps:
  assumes x: "is_f32 x" and e: "rnd32 eps = Fin e" and pos: "0 < e" and at: "x = - e"
  shows "nll x eps = PInf"
proof -
  have "nll_arg x eps = Fin 0"
    unfolding nll_arg_value [OF x e] using pos at by (simp add: rnd32_0)
  then show ?thesis by (simp add: nll_def)
qed

lemma nll_below_minus_eps:
  assumes x: "is_f32 x" and e: "rnd32 eps = Fin e" and pos: "0 < e" and below: "x < - e"
  shows "nll x eps = NaN"
proof -
  have fe: "is_f32 e" using rnd32_closed [of eps] by (simp add: e)
  have a: "nll_arg x eps = rnd32 (x + e)"
    unfolding nll_arg_value [OF x e] using pos below by simp
  have "flt (rnd32 (x + e)) (Fin 0)"
    using x fe below by (intro rnd32_sum_neg) simp_all
  then have "flog (rnd32 (x + e)) = NaN"
    by (cases "rnd32 (x + e)") simp_all
  then show ?thesis by (simp add: nll_def a)
qed

lemma ln_pow2: "ln ((2::real) ^ n) = real n * ln 2"
  by (simp add: ln_realpow)

lemma f32_pos_ge_min:
  assumes "is_f32 r" and "0 < r"
  shows "1 / 2 ^ 149 \<le> r"
proof -
  from assms(1) obtain c :: int where c: "r = of_int c * 2 powi (- 149)" by (rule f32_multiple_min)
  have p: "(0::real) < 2 powi (- 149)" by simp
  from assms(2) have "0 < real_of_int c" unfolding c using p by (simp add: zero_less_mult_iff)
  then have "0 < c" by simp
  then have "1 \<le> c" by simp
  then have "1 \<le> real_of_int c" by simp
  then have "1 * 2 powi (- 149) \<le> real_of_int c * 2 powi (- 149)"
    using p by (intro mult_right_mono) simp_all
  then show ?thesis unfolding c by (simp add: power_int_minus field_simps)
qed

lemma ln_f32_bound:
  assumes "is_f32 r" and "0 < r"
  shows "\<bar>ln r\<bar> \<le> 149"
proof -
  have l2: "0 < ln (2::real)" "ln (2::real) < 1" using ln_2_less_1 by simp_all
  have "r < 2 ^ 128" using is_f32_abs_less [OF assms(1)] by simp
  then have "ln r < ln ((2::real) ^ 128)" using assms(2) by (subst ln_less_cancel_iff) simp_all
  also have "\<dots> = 128 * ln 2" using ln_pow2 [of 128] by simp
  also have "\<dots> \<le> 149" using l2 by simp
  finally have up: "ln r \<le> 149" by simp
  have "ln (1 / (2::real) ^ 149) \<le> ln r"
    using f32_pos_ge_min [OF assms] assms(2) by (subst ln_le_cancel_iff) simp_all
  moreover have "ln (1 / (2::real) ^ 149) = - (149 * ln 2)"
    using ln_pow2 [of 149] by (simp add: ln_div)
  ultimately have "- (149 * ln 2) \<le> ln r" by simp
  moreover have "- 149 \<le> - (149 * ln (2::real))" using l2 by simp
  ultimately have "- 149 \<le> ln r" by linarith
  with up show ?thesis by simp
qed

lemma flog_finite:
  assumes "is_f32 r" and "0 < r"
  obtains v where "flog (Fin r) = Fin v" and "\<bar>v\<bar> \<le> 149" and "is_f32 v"
proof -
  have "is_f32 149" by (simp add: f32_small)
  from rnd32_bounded [OF this ln_f32_bound [OF assms]]
  obtain v where "rnd32 (ln r) = Fin v" "\<bar>v\<bar> \<le> 149" "is_f32 v" by blast
  with assms(2) show ?thesis by (intro that [of v]) simp_all
qed

lemma nll_arg_finite_pos:
  assumes x: "is_f32 x" and e: "rnd32 eps = Fin e" and pos: "0 < e" and above: "- e < x"
    and small: "e < 2 ^ 127"
  obtains r where "nll_arg x eps = Fin r" and "is_f32 r" and "0 < r"
proof (cases "x < e")
  case True
  have fe: "is_f32 e" using rnd32_closed [of eps] by (simp add: e)
  have a: "nll_arg x eps = rnd32 (x + e)"
    unfolding nll_arg_value [OF x e] using True by simp
  have C: "is_f32 (2 * e)" using fe pos small by (intro is_f32_double) simp_all
  have "\<bar>x + e\<bar> \<le> 2 * e" using True above by simp
  from rnd32_bounded [OF C this] obtain r where r: "rnd32 (x + e) = Fin r" "is_f32 r" by blast
  have "flt (Fin 0) (rnd32 (x + e))" using x fe above by (intro rnd32_sum_pos) simp_all
  then have "0 < r" by (simp add: r)
  with a r show ?thesis by (intro that [of r]) simp_all
next
  case False
  then have "nll_arg x eps = Fin x" unfolding nll_arg_value [OF x e] by simp
  moreover have "0 < x" using False pos by simp
  ultimately show ?thesis using x by (intro that [of x])
qed

lemma nll_finite:
  assumes x: "is_f32 x" and e: "rnd32 eps = Fin e" and pos: "0 < e" and above: "- e < x"
    and small: "e < 2 ^ 127"
  obtains v where "nll x eps = Fin v" and "\<bar>v\<bar> \<le> 149" and "is_f32 v"
proof -
  from nll_arg_finite_pos [OF assms] obtain r where r: "nll_arg x eps = Fin r" "is_f32 r" "0 < r"
    by blast
  from flog_finite [OF r(2,3)] obtain v where v: "flog (Fin r) = Fin v" "\<bar>v\<bar> \<le> 149" "is_f32 v"
    by blast
  show ?thesis
    using v r(1) by (intro that [of "- v"]) (simp_all add: nll_def is_f32_minus)
qed

section \<open>Negative logarithm: the claim\<close>

lemma rnd32_below_minus_one: "rnd32 (- 1 + eps32) = Fin (- 1)"
proof -
  have "rnd32 (- 1 + eps32) = Fin (of_int (- 16777216) * 2 powi (- 24))"
    by (rule rnd32_eval [where k = "- 1"])
       (simp_all add: eps32_def round_half_even_def power_int_minus)
  then show ?thesis by (simp add: power_int_minus)
qed

text \<open>
  C1, as stated, fails: at the entry \<open>-1\<close>, which is less than \<open>eps\<close>, \<^verbatim>\<open>nll\<close> adds \<open>eps\<close>;
  the sum \<open>-1 + eps\<close> is rounded to \<open>-1\<close>, the argument of the logarithm is \<open>-1\<close>, not a
  positive number, and the result is NaN.
\<close>

theorem nll_negative_entry_counterexample:
  "is_f32 (- 1) \<and> nll_arg (- 1) default_eps = Fin (- 1) \<and> nll (- 1) default_eps = NaN"
proof -
  have x: "is_f32 (- 1)" by (intro is_f32_minus is_f32_1)
  have "nll_arg (- 1) default_eps = rnd32 (- 1 + eps32)"
    unfolding nll_arg_value [OF x rnd32_default_eps] using eps32_pos by simp
  then have a: "nll_arg (- 1) default_eps = Fin (- 1)" by (simp only: rnd32_below_minus_one)
  then have "nll (- 1) default_eps = NaN" by (simp add: nll_def)
  with x a show ?thesis by simp
qed

text \<open>
  C1, amended. Let \<open>x\<close> be a representable entry and \<open>e\<close> the single-precision value of
  \<open>eps\<close>, a positive number (for the default \<^verbatim>\<open>1e-8\<close> it is \<open>11258999 / 2 ^ 50\<close>). \<^verbatim>\<open>nll\<close>
  adds \<open>e\<close> to \<open>x\<close> exactly when \<open>x < e\<close>, the sum being rounded, and leaves every other
  entry untouched. The argument of the logarithm is positive exactly when \<open>-e < x\<close>; the
  result then is a finite number (for \<open>e < 2 ^ 127\<close>, where the sum cannot overflow). At
  \<open>x = -e\<close> the argument is \<open>0\<close> and the result is \<open>+\<infinity>\<close>; for \<open>x < -e\<close> the argument is
  negative and the result is NaN.
\<close>

theorem nll_log_argument:
  "rnd32 default_eps = Fin eps32 \<and> 0 < eps32 \<and>
   (is_f32 x \<and> rnd32 eps = Fin e \<and> 0 < e \<longrightarrow>
      nll_dx x eps = (if x < e then Fin e else Fin 0)
      \<and> nll_arg x eps = (if x < e then rnd32 (x + e) else Fin x)
      \<and> (flt (Fin 0) (nll_arg x eps) \<longleftrightarrow> - e < x)
      \<and> (- e < x \<and> e < 2 ^ 127 \<longrightarrow> is_fin (nll x eps))
      \<and> (x = - e \<longrightarrow> nll x eps = PInf)
      \<and> (x < - e \<longrightarrow> nll x eps = NaN))"
proof (intro conjI impI)
  show "rnd32 default_eps = Fin eps32" by (rule rnd32_default_eps)
  show "0 < eps32" by (rule eps32_pos)
next
  assume h: "is_f32 x \<and> rnd32 eps = Fin e \<and> 0 < e"
  then show "nll_dx x eps = (if x < e then Fin e else Fin 0)"
    by (intro nll_dx_value) simp_all
  from h show "nll_arg x eps = (if x < e then rnd32 (x + e) else Fin x)"
    by (intro nll_arg_value) simp_all
  from h show "flt (Fin 0) (nll_arg x eps) \<longleftrightarrow> - e < x"
    by (intro nll_arg_pos_iff) simp_all
  {
    assume "- e < x \<and> e < 2 ^ 127"
    with h obtain v where "nll x eps = Fin v"
      using nll_finite [of x eps e] by blast
    then show "is_fin (nll x eps)" by simp
  }
  {
    assume "x = - e"
    with h show "nll x eps = PInf" by (intro nll_at_minus_eps [of x eps e]) simp_all
  }
  {
    assume "x < - e"
    with h show "nll x eps = NaN" by (intro nll_below_minus_eps [of x eps e]) simp_all
  }
qed

theorem nll_log_argument_witness:
  "is_f32 0 \<and> rnd32 default_eps = Fin eps32 \<and> 0 < eps32
   \<and> nll_dx 0 default_eps = Fin eps32
   \<and> nll_arg 0 default_eps = Fin eps32
   \<and> is_fin (nll 0 default_eps)
   \<and> nll_dx 1 default_eps = Fin 0
   \<and> nll_arg 1 default_eps = Fin 1
   \<and> nll 1 default_eps = Fin 0
   \<and> nll (- eps32) default_eps = PInf
   \<and> nll (- 1) default_eps = NaN"
proof -
  note t = nll_log_argument [of _ default_eps eps32]
  have e: "rnd32 default_eps = Fin eps32" "0 < eps32" using t [of 0] by simp_all
  have s: "eps32 < 2 ^ 127" by (simp add: eps32_def)
  have f: "is_f32 0" "is_f32 1" "is_f32 (- eps32)" "is_f32 (- 1)"
    by (simp_all add: f32_small is_f32_minus is_f32_eps32)
  have r: "rnd32 eps32 = Fin eps32" by (rule rnd32_f32 [OF is_f32_eps32])
  have 0: "nll_dx 0 default_eps = Fin eps32" "nll_arg 0 default_eps = Fin eps32"
    "is_fin (nll 0 default_eps)"
    using t [of 0] f e s r by simp_all
  have 1: "nll_dx 1 default_eps = Fin 0" "nll_arg 1 default_eps = Fin 1"
    using t [of 1] f e by (simp_all add: eps32_def)
  have 2: "nll 1 default_eps = Fin 0" by (simp add: nll_def 1 rnd32_0)
  have 3: "nll (- eps32) default_eps = PInf" using t [of "- eps32"] f e by simp
  have 4: "nll (- 1) default_eps = NaN" using t [of "- 1"] f e by (simp add: eps32_def)
  from f e 0 1 2 3 4 show ?thesis by simp
qed

section \<open>Gradient clipping: properties\<close>

lemma grad_norm_foldl:
  "foldl (\<lambda>grad_norm (n, grad).
            case grad of
              None \<Rightarrow> grad_norm
            | Some d \<Rightarrow> fadd grad_norm (fmul (tensor_norm d) (tensor_norm d))) acc ps
     = foldl fadd acc (map (\<lambda>d. fmul (tensor_norm d) (tensor_norm d)) (defined_grads ps))"
proof (induction ps arbitrary: acc)
  case Nil
  show ?case by (simp add: defined_grads_def map_filter_simps)
next
  case (Cons p ps)
  obtain n grad where p: "p = (n, grad)" by (cases p)
  show ?case
    using Cons.IH by (cases grad) (simp_all add: p defined_grads_def map_filter_simps)
qed

lemma grad_norm_sum:
  "grad_norm ps = fsqrt (fsum (map (\<lambda>d. fmul (tensor_norm d) (tensor_norm d)) (defined_grads ps)))"
  by (simp add: grad_norm_def fsum_def grad_norm_foldl)

lemma clip_grads_above:
  "flt (rnd32 max_norm) (grad_norm ps) \<Longrightarrow>
   clip_grads (Reiterable ps) max_norm = divided_grads (fdiv (grad_norm ps) (rnd32 max_norm)) ps"
  by (simp add: clip_grads_def first_pass_def second_pass_def unchanged_grads_def)

lemma clip_grads_not_above:
  "\<not> flt (rnd32 max_norm) (grad_norm ps) \<Longrightarrow>
   clip_grads (Reiterable ps) max_norm = unchanged_grads ps"
  by (simp add: clip_grads_def first_pass_def)

lemma divided_by_two: "divided_grads (Fin 2) ps = scaled_grads (Fin (1 / 2)) ps"
  by (simp add: divided_grads_def scaled_grads_def)

lemma clip_grads_half:
  assumes "grad_norm ps = Fin 10"
  shows "clip_grads (Reiterable ps) 5 = scaled_grads (Fin (1 / 2)) ps"
proof -
  have "flt (rnd32 5) (grad_norm ps)" by (simp add: assms f32_small)
  then have "clip_grads (Reiterable ps) 5 = divided_grads (fdiv (grad_norm ps) (rnd32 5)) ps"
    by (rule clip_grads_above)
  also have "fdiv (grad_norm ps) (rnd32 5) = Fin 2" by (simp add: assms f32_small)
  finally show ?thesis by (simp only: divided_by_two)
qed

lemma divided_no_grads:
  assumes "defined_grads ps = []"
  shows "divided_grads c ps = unchanged_grads ps"
  using assms
proof (induction ps)
  case Nil
  show ?case by (simp add: divided_grads_def unchanged_grads_def)
next
  case (Cons p ps)
  obtain n grad where p: "p = (n, grad)" by (cases p)
  from Cons.prems have g: "grad = None" and r: "defined_grads ps = []"
    by (cases grad; simp add: p defined_grads_def map_filter_simps)+
  from Cons.IH [OF r] show ?case
    by (simp add: p g divided_grads_def unchanged_grads_def)
qed

lemma clip_grads_no_grads:
  assumes "defined_grads ps = []"
  shows "clip_grads (Reiterable ps) max_norm = unchanged_grads ps"
proof (cases "flt (rnd32 max_norm) (grad_norm ps)")
  case True
  then show ?thesis by (simp only: clip_grads_above divided_no_grads [OF assms])
next
  case False
  then show ?thesis by (rule clip_grads_not_above)
qed

lemma is_f32_abs: "is_f32 v \<Longrightarrow> is_f32 \<bar>v\<bar>"
  by (simp add: abs_if is_f32_minus)

lemma clip_quotient_ge_one:
  assumes "0 < m" and "flt (Fin m) g"
  shows "fle (Fin 1) (fdiv g (Fin m))"
proof (cases g)
  case (Fin r)
  with assms have "1 \<le> r / m" by simp
  then have "fle (rnd32 1) (rnd32 (r / m))" by (rule rnd32_mono)
  then show ?thesis using assms(1) by (simp add: Fin rnd32_1)
next
  case PInf
  then show ?thesis using assms(1) by simp
next
  case NInf
  with assms show ?thesis by simp
next
  case NaN
  with assms show ?thesis by simp
qed

lemma divided_entry_bound:
  assumes v: "is_f32 v" and c: "fle (Fin 1) c"
  shows "fbound \<bar>v\<bar> (fdiv (Fin v) c)"
proof (cases c)
  case (Fin r)
  with c have r: "1 \<le> r" by simp
  then have "1 * \<bar>v\<bar> \<le> r * \<bar>v\<bar>" by (intro mult_right_mono) simp_all
  with r have "\<bar>v / r\<bar> \<le> \<bar>v\<bar>"
    by (simp add: abs_divide field_simps)
  from rnd32_bounded [OF is_f32_abs [OF v] this]
  obtain q where "rnd32 (v / r) = Fin q" "\<bar>q\<bar> \<le> \<bar>v\<bar>" by blast
  then show ?thesis using r by (simp add: Fin)
next
  case PInf
  then show ?thesis by simp
next
  case NInf
  with c show ?thesis by simp
next
  case NaN
  with c show ?thesis by simp
qed

lemma sqrt_100: "sqrt 100 = 10"
  using real_sqrt_abs [of 10] by simp

lemma tensor_norm_6_8: "tensor_norm [6, 8] = Fin 10"
  by (simp add: tensor_norm_def fsum_def f32_small sqrt_100)

lemma grad_norm_ten: "grad_norm [(''w'', Some [6, 8]), (''b'', None)] = Fin 10"
  by (simp add: grad_norm_def tensor_norm_6_8 f32_small sqrt_100)

lemma rnd32_pow140: "rnd32 (2 ^ 140) = PInf"
proof -
  have "rnd32 (2 ^ 140) = signed_inf (2 ^ 140)"
    by (rule rnd32_eval_inf [where k = 140 and n = "2 ^ 23" and u = 117])
      (simp_all add: round_half_even_def)
  then show ?thesis by (simp add: signed_inf_def)
qed

lemma is_f32_pow70: "is_f32 (2 ^ 70)"
  by (rule is_f32I [of 1 70]) simp_all

lemma tensor_norm_overflow: "tensor_norm [2 ^ 70, 2 ^ 70] = PInf"
proof -
  have "(2::real) ^ 70 * 2 ^ 70 = 2 ^ 140" by simp
  then have "fmul (Fin (2 ^ 70)) (Fin (2 ^ 70)) = PInf"
    using rnd32_pow140 by (simp only: fmul.simps)
  then show ?thesis
    by (simp only: tensor_norm_def list.map fsum_def foldl.simps fadd.simps fsqrt.simps)
qed

lemma grad_norm_overflow: "grad_norm [(''w'', Some [2 ^ 70, 2 ^ 70])] = PInf"
  by (simp add: grad_norm_def tensor_norm_overflow del: power_numeral)

section \<open>Gradient clipping: the claim\<close>

text \<open>
  C8, as stated, fails. The single gradient \<open>[2 ^ 70, 2 ^ 70]\<close> has the norm
  \<open>2 ^ 70 * sqrt 2\<close>, which exceeds \<open>5\<close>: scaled by \<open>5\<close> over the norm, its entries would
  be \<open>5 / sqrt 2\<close>. The squares overflow, \<^verbatim>\<open>clip_grads\<close> finds the norm \<open>+\<infinity>\<close> and divides the
  entries by \<open>+\<infinity>\<close>: both become \<open>0\<close>. And for an iterator that can be run only once, with
  the gradient \<open>[6, 8]\<close> of norm \<open>10\<close>, the second loop finds nothing and the gradient stays
  as it is.
\<close>

theorem clip_grads_overflow_counterexample:
  "is_f32 (2 ^ 70)
   \<and> grad_norm [(''w'', Some [2 ^ 70, 2 ^ 70])] = PInf
   \<and> clip_grads (Reiterable [(''w'', Some [2 ^ 70, 2 ^ 70])]) 5 = [(''w'', Some [Fin 0, Fin 0])]
   \<and> grad_norm [(''w'', Some [6, 8]), (''b'', None)] = Fin 10
   \<and> clip_grads (OneShot [(''w'', Some [6, 8]), (''b'', None)]) 5
       = [(''w'', Some [Fin 6, Fin 8]), (''b'', None)]"
proof -
  have "flt (rnd32 5) (grad_norm [(''w'', Some [2 ^ 70, 2 ^ 70])])"
    unfolding grad_norm_overflow by (simp add: f32_small)
  then have "clip_grads (Reiterable [(''w'', Some [2 ^ 70, 2 ^ 70])]) 5
      = divided_grads (fdiv PInf (rnd32 5)) [(''w'', Some [2 ^ 70, 2 ^ 70])]"
    by (simp only: clip_grads_above grad_norm_overflow)
  also have "\<dots> = [(''w'', Some [Fin 0, Fin 0])]"
    by (simp add: divided_grads_def f32_small)
  finally have 1: "clip_grads (Reiterable [(''w'', Some [2 ^ 70, 2 ^ 70])]) 5
      = [(''w'', Some [Fin 0, Fin 0])]" .
  have 2: "clip_grads (OneShot [(''w'', Some [6, 8]), (''b'', None)]) 5
       = [(''w'', Some [Fin 6, Fin 8]), (''b'', None)]"
    by (simp add: clip_grads_def first_pass_def second_pass_def grad_norm_ten f32_small
        divided_grads_def unchanged_grads_def)
  from is_f32_pow70 grad_norm_overflow 1 grad_norm_ten 2 show ?thesis by simp
qed

text \<open>
  C8, amended. Let \<^verbatim>\<open>named_params\<close> be a collection that can be iterated again, and
  \<open>m\<close> the single-precision value of \<^verbatim>\<open>max_norm\<close>. \<^verbatim>\<open>clip_grads\<close> computes the global norm
  over the gradients that are not \<^verbatim>\<open>None\<close> as the square root of the sum of their squared
  norms, in the arithmetic of the tensors. If that norm exceeds \<open>m\<close>, every gradient entry
  is divided by the quotient of the norm and \<open>m\<close>; for a positive \<open>m\<close> that quotient is at
  least \<open>1\<close> and no entry grows in magnitude; with the norm \<open>10\<close> and \<^verbatim>\<open>max_norm\<close> \<open>5\<close> every
  entry is multiplied by \<open>1 / 2\<close>. If the norm does not exceed \<open>m\<close>, or no gradient is
  present, every gradient is left unchanged.
\<close>

theorem clip_grads_global_norm:
  "grad_norm ps
     = fsqrt (fsum (map (\<lambda>d. fmul (tensor_norm d) (tensor_norm d)) (defined_grads ps)))
   \<and> (rnd32 max_norm = Fin m \<and> flt (Fin m) (grad_norm ps) \<longrightarrow>
        clip_grads (Reiterable ps) max_norm = divided_grads (fdiv (grad_norm ps) (Fin m)) ps)
   \<and> (rnd32 max_norm = Fin m \<and> flt (Fin m) (grad_norm ps) \<and> 0 < m \<longrightarrow>
        fle (Fin 1) (fdiv (grad_norm ps) (Fin m))
        \<and> (is_f32 v \<longrightarrow> fbound \<bar>v\<bar> (fdiv (Fin v) (fdiv (grad_norm ps) (Fin m)))))
   \<and> (grad_norm ps = Fin 10 \<longrightarrow> clip_grads (Reiterable ps) 5 = scaled_grads (Fin (1 / 2)) ps)
   \<and> (rnd32 max_norm = Fin m \<and> \<not> flt (Fin m) (grad_norm ps) \<longrightarrow>
        clip_grads (Reiterable ps) max_norm = unchanged_grads ps)
   \<and> (defined_grads ps = [] \<longrightarrow> clip_grads (Reiterable ps) max_norm = unchanged_grads ps)"
proof (intro conjI impI)
  show "grad_norm ps
     = fsqrt (fsum (map (\<lambda>d. fmul (tensor_norm d) (tensor_norm d)) (defined_grads ps)))"
    by (rule grad_norm_sum)
next
  assume "rnd32 max_norm = Fin m \<and> flt (Fin m) (grad_norm ps)"
  then show "clip_grads (Reiterable ps) max_norm
      = divided_grads (fdiv (grad_norm ps) (Fin m)) ps"
    using clip_grads_above [of max_norm ps] by simp
next
  assume h: "rnd32 max_norm = Fin m \<and> flt (Fin m) (grad_norm ps) \<and> 0 < m"
  then show c: "fle (Fin 1) (fdiv (grad_norm ps) (Fin m))"
    by (intro clip_quotient_ge_one) simp_all
  assume "is_f32 v"
  then show "fbound \<bar>v\<bar> (fdiv (Fin v) (fdiv (grad_norm ps) (Fin m)))"
    using c by (rule divided_entry_bound)
next
  assume "grad_norm ps = Fin 10"
  then show "clip_grads (Reiterable ps) 5 = scaled_grads (Fin (1 / 2)) ps"
    by (rule clip_grads_half)
next
  assume "rnd32 max_norm = Fin m \<and> \<not> flt (Fin m) (grad_norm ps)"
  then show "clip_grads (Reiterable ps) max_norm = unchanged_grads ps"
    using clip_grads_not_above [of max_norm ps] by simp
next
  assume "defined_grads ps = []"
  then show "clip_grads (Reiterable ps) max_norm = unchanged_grads ps"
    by (rule clip_grads_no_grads)
qed

theorem clip_grads_global_norm_witness:
  "grad_norm [(''w'', Some [6, 8]), (''b'', None)] = Fin 10
   \<and> clip_grads (Reiterable [(''w'', Some [6, 8]), (''b'', None)]) 5
       = [(''w'', Some [Fin 3, Fin 4]), (''b'', None)]
   \<and> fle (Fin 1) (fdiv (Fin 10) (Fin 5))
   \<and> fbound 6 (fdiv (Fin 6) (fdiv (Fin 10) (Fin 5)))
   \<and> clip_grads (Reiterable [(''w'', Some [6, 8]), (''b'', None)]) 20
       = [(''w'', Some [Fin 6, Fin 8]), (''b'', None)]
   \<and> clip_grads (Reiterable [(''b'', None)]) (- 1) = [(''b'', None)]"
proof -
  let ?ps = "[(''w'', Some [6, 8]), (''b'', None)] :: named_param list"
  let ?qs = "[(''b'', None)] :: named_param list"
  have n: "grad_norm ?ps = Fin 10" by (rule grad_norm_ten)
  have r: "rnd32 5 = Fin 5" "rnd32 20 = Fin 20" "is_f32 6" by (simp_all add: f32_small)
  have "clip_grads (Reiterable ?ps) 5 = scaled_grads (Fin (1 / 2)) ?ps"
    using clip_grads_global_norm [of ?ps 5 5 6] n by blast
  then have 1: "clip_grads (Reiterable ?ps) 5 = [(''w'', Some [Fin 3, Fin 4]), (''b'', None)]"
    by (simp add: scaled_grads_def f32_small)
  have "rnd32 5 = Fin 5 \<and> flt (Fin 5) (grad_norm ?ps) \<and> (0::real) < 5"
    by (simp add: n r)
  with r(3) have "fle (Fin 1) (fdiv (grad_norm ?ps) (Fin 5))
      \<and> fbound \<bar>6\<bar> (fdiv (Fin 6) (fdiv (grad_norm ?ps) (Fin 5)))"
    using clip_grads_global_norm [of ?ps 5 5 6] by blast
  then have 2: "fle (Fin 1) (fdiv (Fin 10) (Fin 5))"
    "fbound 6 (fdiv (Fin 6) (fdiv (Fin 10) (Fin 5)))"
    by (simp_all only: n abs_numeral)
  have "rnd32 20 = Fin 20 \<and> \<not> flt (Fin 20) (grad_norm ?ps)" by (simp add: n r)
  then have "clip_grads (Reiterable ?ps) 20 = unchanged_grads ?ps"
    using clip_grads_global_norm [of ?ps 20 20 6] by blast
  then have 3: "clip_grads (Reiterable ?ps) 20 = [(''w'', Some [Fin 6, Fin 8]), (''b'', None)]"
    by (simp add: unchanged_grads_def)
  have "defined_grads ?qs = []" by (simp add: defined_grads_def map_filter_simps)
  then have "clip_grads (Reiterable ?qs) (- 1) = unchanged_grads ?qs"
    using clip_grads_global_norm [of ?qs "- 1" 0 0] by blast
  then have 4: "clip_grads (Reiterable ?qs) (- 1) = [(''b'', None)]"
    by (simp add: unchanged_grads_def)
  from n 1 2 3 4 show ?thesis by simp
qed

section \<open>Box to mask: properties\<close>

lemma set_pad_axis: "set (pad_axis z b a xs) \<subseteq> insert z (set xs)"
  by (auto simp: pad_axis_def Let_def dest: in_set_takeD in_set_dropD)

lemma take_fill_prefix:
  assumes "n \<le> m"
  shows "set (take n (replicate m z @ xs)) \<subseteq> {z}"
proof -
  have "take n (replicate m z @ xs) = replicate n z"
    using assms by (simp add: min_def)
  then show ?thesis by auto
qed

lemma take_pad_axis_fill:
  assumes "int n \<le> b"
  shows "set (take n (pad_axis z b a xs)) \<subseteq> {z}"
proof -
  from assms have b: "0 \<le> b" and n: "n \<le> nat b" by simp_all
  let ?ys = "replicate (nat b) z @ xs"
  show ?thesis
  proof (cases "0 \<le> a")
    case True
    have "take n (?ys @ replicate (nat a) z) = take n ?ys"
      using n by simp
    with True b take_fill_prefix [OF n, of z xs] show ?thesis
      by (simp add: pad_axis_def Let_def)
  next
    case False
    let ?k = "length ?ys - nat (- a)"
    have "take n (take ?k ?ys) = take (min n ?k) ?ys"
      by (rule take_take)
    moreover have "min n ?k \<le> nat b" using n by simp
    ultimately have "set (take n (take ?k ?ys)) \<subseteq> {z}"
      using take_fill_prefix [of "min n ?k" "nat b" z xs] by (simp only:)
    with False b show ?thesis
      by (simp add: pad_axis_def Let_def)
  qed
qed

lemma trunc_int_mono_ge1:
  assumes "max c 1 \<le> v"
  shows "int (nat (max (trunc_int c) 1)) \<le> trunc_int (max v 0)"
proof -
  from assms have c: "c \<le> v" and v: "1 \<le> v" by simp_all
  have one: "1 \<le> \<lfloor>v\<rfloor>" using v by linarith
  have "trunc_int c \<le> \<lfloor>v\<rfloor>"
  proof (cases "0 \<le> c")
    case True
    then show ?thesis using floor_mono [OF c] by (simp add: trunc_int_def)
  next
    case False
    then have "\<lceil>c\<rceil> \<le> 0" by (simp add: ceiling_le_iff)
    with one have "\<lceil>c\<rceil> \<le> \<lfloor>v\<rfloor>" by linarith
    with False show ?thesis by (simp add: trunc_int_def)
  qed
  with one v show ?thesis by (simp add: trunc_int_def)
qed

lemma region_mask_outside:
  assumes "max region_cols 1 \<le> box_x yy \<or> max region_rows 1 \<le> box_y yy"
  shows "all_zero (region_mask yy (region_rows, region_cols))"
proof -
  define cw where "cw = nat (max (round_half_even (box_w yy - max (- box_x yy) 0)) 1)"
  define ch where "ch = nat (max (round_half_even (box_h yy - max (- box_y yy) 0)) 1)"
  define core :: "real list list" where "core = replicate ch (replicate cw 1)"
  define p_left where "p_left = trunc_int (max (box_x yy) 0)"
  define p_right where
    "p_right = trunc_int (region_cols - min (box_x yy + box_w yy) region_cols)"
  define p_top where "p_top = trunc_int (max (box_y yy) 0)"
  define p_bottom where
    "p_bottom = trunc_int (region_rows - min (box_y yy + box_h yy) region_rows)"
  define R where "R = nat (max (trunc_int region_rows) 1)"
  define C where "C = nat (max (trunc_int region_cols) 1)"
  define rows where "rows = map (pad_axis 0 p_left p_right) core"
  define zrow :: "real list" where
    "zrow = replicate (case rows of [] \<Rightarrow> 0 | row # _ \<Rightarrow> length row) 0"
  define padded where "padded = pad_axis zrow p_top p_bottom rows"
  have mask: "region_mask yy (region_rows, region_cols) = map (take C) (take R padded)"
    by (simp add: region_mask_def pad2d_def Let_def cw_def ch_def core_def p_left_def
        p_right_def p_top_def p_bottom_def R_def C_def rows_def zrow_def padded_def)
  have zrow: "set (take C zrow) \<subseteq> {0}"
    by (auto simp: zrow_def dest: in_set_takeD)
  from assms have "\<forall>r \<in> set (take R padded). set (take C r) \<subseteq> {0}"
  proof
    assume "max region_cols 1 \<le> box_x yy"
    then have "int C \<le> p_left"
      unfolding C_def p_left_def by (rule trunc_int_mono_ge1)
    then have "set (take C (pad_axis 0 p_left p_right row)) \<subseteq> {0}" for row :: "real list"
      by (rule take_pad_axis_fill)
    then have "\<forall>r \<in> set rows. set (take C r) \<subseteq> {0}"
      by (simp add: rows_def)
    moreover have "set (take R padded) \<subseteq> insert zrow (set rows)"
      using set_pad_axis [of zrow p_top p_bottom rows] set_take_subset [of R padded]
      by (auto simp: padded_def)
    ultimately show ?thesis using zrow by blast
  next
    assume "max region_rows 1 \<le> box_y yy"
    then have "int R \<le> p_top"
      unfolding R_def p_top_def by (rule trunc_int_mono_ge1)
    then have "set (take R padded) \<subseteq> {zrow}"
      unfolding padded_def by (rule take_pad_axis_fill)
    with zrow show ?thesis by blast
  qed
  then show ?thesis
    unfolding all_zero_def mask by auto
qed

lemma resize_nearest_zero:
  assumes "all_zero m"
  shows "resize_nearest m (oh, ow) = replicate oh (replicate ow 0)"
proof -
  have entry: "(if m = [] then 0
                else let row = m ! (i * length m div oh)
                     in if row = [] then 0
                        else nat \<lfloor>255 * (row ! (j * length row div ow))\<rfloor>) = 0"
    if i: "i < oh" and j: "j < ow" for i j
  proof (cases "m = []")
    case True
    then show ?thesis by simp
  next
    case False
    then have "i * length m < oh * length m" using i by simp
    then have "i * length m div oh < length m"
      by (simp add: less_mult_imp_div_less mult.commute)
    then have row: "m ! (i * length m div oh) \<in> set m" by simp
    let ?row = "m ! (i * length m div oh)"
    show ?thesis
    proof (cases "?row = []")
      case True
      with False show ?thesis by simp
    next
      case nonempty: False
      then have "j * length ?row < ow * length ?row" using j by simp
      then have "j * length ?row div ow < length ?row"
        by (simp add: less_mult_imp_div_less mult.commute)
      then have "?row ! (j * length ?row div ow) \<in> set ?row" by simp
      with assms row have "?row ! (j * length ?row div ow) = 0"
        unfolding all_zero_def by blast
      with False nonempty show ?thesis by (simp add: Let_def)
    qed
  qed
  show ?thesis
    unfolding resize_nearest_def prod.case
    by (intro nth_equalityI) (simp_all add: entry del: upt_Suc)
qed

section \<open>Box to mask: the claim\<close>

text \<open>
  C9, as stated, fails: the box \<open>(-20, -20, 5, 5)\<close> lies fully outside the region
  \<open>[0, 2) \<times> [0, 2)\<close>, to its upper left. The core of ones is clamped to at least one
  row and one column and is padded at the offset \<open>max(x, 0) = 0\<close>, \<open>max(y, 0) = 0\<close>: the
  mask handed to the resampler has a one at its first entry, and so has the raster
  (resampled to the size \<open>2 \<times> 2\<close> it already has).
\<close>

theorem bbox_to_mask_outside_counterexample:
  "region_mask (- 20, - 20, 5, 5) (2, 2) = [[1, 0], [0, 0]]
   \<and> bbox_to_mask1 resize_nearest (- 20, - 20, 5, 5) (2, 2) (2, 2) = [[1, 0], [0, 0]]
   \<and> bbox_to_mask resize_nearest [(- 20, - 20, 5, 5)] [2] [2] (2, 2) = [[[1, 0], [0, 0]]]"
proof -
  have m: "region_mask (- 20, - 20, 5, 5) (2, 2) = [[1, 0], [0, 0]]"
    by (simp add: region_mask_def box_x_def box_y_def box_w_def box_h_def round_half_even_def
        trunc_int_def pad2d_def pad_axis_def Let_def numeral_2_eq_2 replicate_add [symmetric])
  have r: "resize_nearest [[1, 0], [0, 0]] (2, 2) = [[255, 0], [0, 0]]"
    by (simp add: resize_nearest_def upt_rec numeral_2_eq_2)
  have b: "bbox_to_mask1 resize_nearest (- 20, - 20, 5, 5) (2, 2) (2, 2) = [[1, 0], [0, 0]]"
    by (simp add: bbox_to_mask1_def m r)
  from m b show ?thesis by (simp add: bbox_to_mask_def)
qed

text \<open>
  C9, amended. For every box whose origin lies at or beyond the right bound or the bottom
  bound of the region, the bound taken as at least \<open>1\<close> (\<open>x \<ge> max(regionCols, 1)\<close> or
  \<open>y \<ge> max(regionRows, 1)\<close>), the mask built in the region's frame is all zero, and
  \<^verbatim>\<open>bbox_to_mask\<close> produces the all-zero raster of shape \<open>outputSize\<close>, for every resampler
  that maps an all-zero mask to the all-zero raster of the requested shape.
\<close>

theorem bbox_to_mask_beyond_region:
  assumes "\<forall>m. all_zero m
             \<longrightarrow> imresize m output_size = replicate (fst output_size) (replicate (snd output_size) 0)"
  shows "(max region_cols 1 \<le> box_x yy \<or> max region_rows 1 \<le> box_y yy
           \<longrightarrow> all_zero (region_mask yy (region_rows, region_cols))
               \<and> bbox_to_mask1 imresize yy (region_rows, region_cols) output_size
                   = replicate (fst output_size) (replicate (snd output_size) 0))
       \<and> ((\<forall>(b, rows, cols) \<in> set (zip bbox (zip rows_flat cols_flat)).
              max cols 1 \<le> box_x b \<or> max rows 1 \<le> box_y b)
           \<longrightarrow> bbox_to_mask imresize bbox rows_flat cols_flat output_size
                 = replicate (length (zip bbox (zip rows_flat cols_flat)))
                     (replicate (fst output_size) (replicate (snd output_size) 0)))"
proof -
  have one: "bbox_to_mask1 imresize b (rows, cols) output_size
               = replicate (fst output_size) (replicate (snd output_size) 0)"
    if "max cols 1 \<le> box_x b \<or> max rows 1 \<le> box_y b" for b rows cols
  proof -
    have "all_zero (region_mask b (rows, cols))" by (rule region_mask_outside [OF that])
    with assms
    have "imresize (region_mask b (rows, cols)) output_size
            = replicate (fst output_size) (replicate (snd output_size) 0)" by blast
    then show ?thesis by (simp add: bbox_to_mask1_def)
  qed
  show ?thesis
  proof (intro conjI impI)
    assume out: "max region_cols 1 \<le> box_x yy \<or> max region_rows 1 \<le> box_y yy"
    show "all_zero (region_mask yy (region_rows, region_cols))"
      by (rule region_mask_outside [OF out])
    show "bbox_to_mask1 imresize yy (region_rows, region_cols) output_size
            = replicate (fst output_size) (replicate (snd output_size) 0)"
      by (rule one [OF out])
  next
    assume all: "\<forall>(b, rows, cols) \<in> set (zip bbox (zip rows_flat cols_flat)).
                   max cols 1 \<le> box_x b \<or> max rows 1 \<le> box_y b"
    have "map (\<lambda>(b, rows, cols). bbox_to_mask1 imresize b (rows, cols) output_size)
            (zip bbox (zip rows_flat cols_flat))
          = map (\<lambda>t. replicate (fst output_size) (replicate (snd output_size) 0))
              (zip bbox (zip rows_flat cols_flat))"
      using all one by (intro map_cong refl) auto
    then show "bbox_to_mask imresize bbox rows_flat cols_flat output_size
                 = replicate (length (zip bbox (zip rows_flat cols_flat)))
                     (replicate (fst output_size) (replicate (snd output_size) 0))"
      by (simp only: bbox_to_mask_def map_replicate_const)
  qed
qed

theorem bbox_to_mask_beyond_region_witness:
  "bbox_to_mask1 resize_nearest (3, 0, 1, 1) (2, 2) (2, 2) = [[0, 0], [0, 0]]
   \<and> bbox_to_mask resize_nearest [(3, 0, 1, 1), (0, 5, 1, 1)] [2, 4] [2, 4] (2, 2)
       = [[[0, 0], [0, 0]], [[0, 0], [0, 0]]]"
proof -
  have rs: "\<forall>m. all_zero m
     \<longrightarrow> resize_nearest m (2, 2) = replicate (fst (2, 2 :: nat)) (replicate (snd (2 :: nat, 2)) 0)"
    by (simp add: resize_nearest_zero)
  have out: "max (2 :: real) 1 \<le> box_x (3, 0, 1, 1) \<or> max (2 :: real) 1 \<le> box_y (3, 0, 1, 1)"
    by (simp add: box_x_def)
  have all: "\<forall>(b, rows, cols) \<in> set (zip [(3, 0, 1, 1), (0, 5, 1, 1)] (zip [2, 4] [2, 4])).
      max cols 1 \<le> box_x b \<or> max rows 1 \<le> box_y b"
    by (simp add: box_x_def box_y_def)
  from bbox_to_mask_beyond_region [where imresize = resize_nearest and output_size = "(2, 2)"
      and region_cols = 2 and region_rows = 2 and yy = "(3, 0, 1, 1)"
      and bbox = "[(3, 0, 1, 1), (0, 5, 1, 1)]" and rows_flat = "[2, 4]" and cols_flat = "[2, 4]",
      OF rs]
    out all
  have "bbox_to_mask1 resize_nearest (3, 0, 1, 1) (2, 2) (2, 2)
          = replicate (fst (2, 2 :: nat)) (replicate (snd (2 :: nat, 2)) 0)"
    and "bbox_to_mask resize_nearest [(3, 0, 1, 1), (0, 5, 1, 1)] [2, 4] [2, 4] (2, 2)
          = replicate (length (zip [(3, 0, 1, 1), (0, 5, 1, 1) :: bbox] (zip [2, 4 :: real] [2, 4 :: real])))
              (replicate (fst (2, 2 :: nat)) (replicate (snd (2 :: nat, 2)) 0))"
    by blast+
  then show ?thesis by (simp add: numeral_2_eq_2)
qed

end
